theory Spec2Isabelle
  imports Main "HOL-Library.Word" "HOL-Library.Extended_Nat"
begin

section \<open>Strings of the host language\<close>

text \<open>
  The page is TypeScript running in a browser.  A string of the host is a finite sequence
  of 16-bit code units; \<open>length\<close> counts code units.  Exceptions of the host are values
  of the type \<open>exn\<close>; a computation that may throw returns \<open>exn + 'a\<close> with \<open>Inl\<close> for
  the thrown exception.
\<close>

type_synonym jsstring = "16 word list"

datatype exn =
    TypeError
  | SyntaxError
  | InvalidCharacterError
  | RangeError
  | Error jsstring

definition js :: "string \<Rightarrow> jsstring" where
  "js s = map of_char s"

definition LF :: "16 word" where
  "LF = 0x0A"

text \<open>The character class \<^verbatim>\<open>\s\<close> of a regular expression without the unicode flag:
  the white space and line terminator code units.\<close>

definition is_whitespace :: "16 word \<Rightarrow> bool" where
  "is_whitespace c \<longleftrightarrow>
     c \<in> set [0x09, 0x0A, 0x0B, 0x0C, 0x0D, 0x20, 0xA0, 0x1680,
               0x2028, 0x2029, 0x202F, 0x205F, 0x3000, 0xFEFF]
     \<or> (0x2000 \<le> c \<and> c \<le> 0x200A)"

text \<open>\<^verbatim>\<open>s.split(sep)\<close> for a separator of one code unit: the result is never empty.\<close>

fun split_str :: "16 word \<Rightarrow> jsstring \<Rightarrow> jsstring list" where
  "split_str sep [] = [[]]"
| "split_str sep (c # cs) =
     (if c = sep then [] # split_str sep cs
      else (case split_str sep cs of
              [] \<Rightarrow> [[c]]
            | l # ls \<Rightarrow> (c # l) # ls))"

text \<open>\<^verbatim>\<open>a.join(sep)\<close> for an array of strings.\<close>

fun join_str :: "jsstring \<Rightarrow> jsstring list \<Rightarrow> jsstring" where
  "join_str sep [] = []"
| "join_str sep [l] = l"
| "join_str sep (l # l' # ls) = l @ sep @ join_str sep (l' # ls)"

text \<open>\<^verbatim>\<open>s.slice(start, end)\<close>; a negative index counts from the end, a missing
  \<^verbatim>\<open>end\<close> is the length.\<close>

definition slice :: "jsstring \<Rightarrow> int \<Rightarrow> int option \<Rightarrow> jsstring" where
  "slice s start end =
     (let len = int (length s);
          from = (if start < 0 then max (len + start) 0 else min start len);
          e = (case end of None \<Rightarrow> len | Some e \<Rightarrow> e);
          to = (if e < 0 then max (len + e) 0 else min e len)
      in take (nat (to - from)) (drop (nat from) s))"

text \<open>Decimal digits of a natural number: \<^verbatim>\<open>n.toString()\<close> for a non-negative
  integer, and the general radix-16 form used by \<^verbatim>\<open>b.toString(16)\<close>.\<close>

definition digit_char :: "nat \<Rightarrow> 16 word" where
  "digit_char d = (if d < 10 then of_nat (48 + d) else of_nat (87 + d))"

fun toString_radix :: "nat \<Rightarrow> nat \<Rightarrow> jsstring" where
  "toString_radix r n =
     (if r < 2 \<or> n < r then [digit_char n]
      else toString_radix r (n div r) @ [digit_char (n mod r)])"

definition int_toString :: "int \<Rightarrow> jsstring" where
  "int_toString i =
     (if i < 0 then 0x2D # toString_radix 10 (nat (- i)) else toString_radix 10 (nat i))"

definition padStart :: "nat \<Rightarrow> 16 word \<Rightarrow> jsstring \<Rightarrow> jsstring" where
  "padStart n c s = replicate (n - length s) c @ s"

section \<open>Base64: \<^verbatim>\<open>btoa\<close> and \<^verbatim>\<open>atob\<close>\<close>

text \<open>
  The two host functions as the HTML standard defines them.  \<^verbatim>\<open>btoa\<close> throws an
  \<^verbatim>\<open>InvalidCharacterError\<close> when a code unit exceeds 255 and otherwise encodes one
  byte per code unit.  \<^verbatim>\<open>atob\<close> is the forgiving decoder: ASCII white space is
  removed, one or two padding signs are dropped when the length is a multiple of four, and
  a length of 1 modulo 4 or a code unit outside the alphabet throws.
\<close>

definition b64_char :: "nat \<Rightarrow> 16 word" where
  "b64_char i =
     (if i < 26 then of_nat (65 + i)
      else if i < 52 then of_nat (71 + i)
      else if i < 62 then of_nat (i - 4)
      else if i = 62 then 0x2B
      else 0x2F)"

definition b64_value :: "16 word \<Rightarrow> nat option" where
  "b64_value c =
     (let n = unat c in
      if 65 \<le> n \<and> n \<le> 90 then Some (n - 65)
      else if 97 \<le> n \<and> n \<le> 122 then Some (n - 71)
      else if 48 \<le> n \<and> n \<le> 57 then Some (n + 4)
      else if n = 43 then Some 62
      else if n = 47 then Some 63
      else None)"

fun b64_encode :: "nat list \<Rightarrow> jsstring" where
  "b64_encode (a # b # c # bs) =
     [b64_char (a div 4), b64_char ((a mod 4) * 16 + b div 16),
      b64_char ((b mod 16) * 4 + c div 64), b64_char (c mod 64)] @ b64_encode bs"
| "b64_encode [a, b] =
     [b64_char (a div 4), b64_char ((a mod 4) * 16 + b div 16), b64_char ((b mod 16) * 4), 0x3D]"
| "b64_encode [a] = [b64_char (a div 4), b64_char ((a mod 4) * 16), 0x3D, 0x3D]"
| "b64_encode [] = []"

definition btoa :: "jsstring \<Rightarrow> exn + jsstring" where
  "btoa s =
     (if \<exists>c \<in> set s. 0xFF < c then Inl InvalidCharacterError
      else Inr (b64_encode (map unat s)))"

definition is_ascii_whitespace :: "16 word \<Rightarrow> bool" where
  "is_ascii_whitespace c \<longleftrightarrow> c \<in> set [0x09, 0x0A, 0x0C, 0x0D, 0x20]"

definition strip_padding :: "jsstring \<Rightarrow> jsstring" where
  "strip_padding d =
     (if length d mod 4 = 0 \<and> d \<noteq> [] \<and> last d = 0x3D then
        (if butlast d \<noteq> [] \<and> last (butlast d) = 0x3D then butlast (butlast d) else butlast d)
      else d)"

fun b64_decode :: "nat list \<Rightarrow> nat list" where
  "b64_decode (p # q # r # s # rest) =
     [p * 4 + q div 16, (q mod 16) * 16 + r div 4, (r mod 4) * 64 + s] @ b64_decode rest"
| "b64_decode [p, q, r] = [p * 4 + q div 16, (q mod 16) * 16 + r div 4]"
| "b64_decode [p, q] = [p * 4 + q div 16]"
| "b64_decode _ = []"

definition atob :: "jsstring \<Rightarrow> exn + jsstring" where
  "atob data =
     (let d = strip_padding (filter (\<lambda>c. \<not> is_ascii_whitespace c) data) in
      if length d mod 4 = 1 then Inl InvalidCharacterError
      else if \<exists>c \<in> set d. b64_value c = None then Inl InvalidCharacterError
      else Inr (map of_nat (b64_decode (map (\<lambda>c. the (b64_value c)) d))))"

section \<open>Values and objects of the host\<close>

text \<open>
  A value is a primitive or a reference to an object in a store.  The store is a list of
  objects and a reference is an index into it, so that shared and cyclic structures are
  what they are in the host.  An object carries the names of the constructors along its
  prototype chain (nearest first) and the properties a read of the object finds, each with
  the flag that says whether it is an own enumerable property (the properties
  \<^verbatim>\<open>JSON.stringify\<close> visits).  Numbers are restricted to integers.  Accessors with side
  effects, \<^verbatim>\<open>toJSON\<close> methods, functions and symbols are outside the model.
\<close>

datatype jsval =
    VUndefined
  | VNull
  | VBool bool
  | VNumber int
  | VBigInt int
  | VString jsstring
  | VRef nat

datatype jsobj =
    Object (proto_names: "string list") (props: "(string \<times> bool \<times> jsval) list")
  | Array "jsval list"

type_synonym heap = "jsobj list"

text \<open>An object literal or array literal allocates a fresh object.\<close>

definition alloc :: "heap \<Rightarrow> jsobj \<Rightarrow> heap \<times> jsval" where
  "alloc h obj = (h @ [obj], VRef (length h))"

text \<open>\<^verbatim>\<open>v.key\<close> where \<^verbatim>\<open>v\<close> is an object; a missing property reads as
  \<^verbatim>\<open>undefined\<close>.\<close>

definition get_prop :: "heap \<Rightarrow> jsval \<Rightarrow> string \<Rightarrow> jsval" where
  "get_prop h v key =
     (case v of
        VRef a \<Rightarrow>
          (if a < length h then
             (case h ! a of
                Object ns ps \<Rightarrow> (case map_of ps key of Some (e, x) \<Rightarrow> x | None \<Rightarrow> VUndefined)
              | Array es \<Rightarrow> VUndefined)
           else VUndefined)
      | _ \<Rightarrow> VUndefined)"

text \<open>\<^verbatim>\<open>v instanceof C\<close>: the prototype of the constructor \<^verbatim>\<open>C\<close> is on the prototype
  chain of \<^verbatim>\<open>v\<close>; false for every primitive.\<close>

definition instanceof :: "heap \<Rightarrow> jsval \<Rightarrow> string \<Rightarrow> bool" where
  "instanceof h v C =
     (case v of
        VRef a \<Rightarrow>
          a < length h \<and>
          (case h ! a of
             Object ns ps \<Rightarrow> C \<in> set ns
           | Array es \<Rightarrow> C \<in> set [''Array'', ''Object''])
      | _ \<Rightarrow> False)"

definition typeof :: "jsval \<Rightarrow> string" where
  "typeof v =
     (case v of
        VUndefined \<Rightarrow> ''undefined''
      | VNull \<Rightarrow> ''object''
      | VBool b \<Rightarrow> ''boolean''
      | VNumber n \<Rightarrow> ''number''
      | VBigInt n \<Rightarrow> ''bigint''
      | VString s \<Rightarrow> ''string''
      | VRef a \<Rightarrow> ''object'')"

text \<open>\<^verbatim>\<open>v?.constructor?.name\<close>: the name of the nearest constructor, \<^verbatim>\<open>undefined\<close>
  for \<^verbatim>\<open>null\<close>, \<^verbatim>\<open>undefined\<close> and an object without a prototype.\<close>

definition constructor_name :: "heap \<Rightarrow> jsval \<Rightarrow> string option" where
  "constructor_name h v =
     (case v of
        VUndefined \<Rightarrow> None
      | VNull \<Rightarrow> None
      | VBool b \<Rightarrow> Some ''Boolean''
      | VNumber n \<Rightarrow> Some ''Number''
      | VBigInt n \<Rightarrow> Some ''BigInt''
      | VString s \<Rightarrow> Some ''String''
      | VRef a \<Rightarrow>
          (if a < length h then
             (case h ! a of
                Object ns ps \<Rightarrow> (case ns of [] \<Rightarrow> None | n # ns' \<Rightarrow> Some n)
              | Array es \<Rightarrow> Some ''Array'')
           else None))"

section \<open>\<^verbatim>\<open>JSON.stringify\<close>\<close>

definition is_high_surrogate :: "16 word \<Rightarrow> bool" where
  "is_high_surrogate c \<longleftrightarrow> 0xD800 \<le> c \<and> c \<le> 0xDBFF"

definition is_low_surrogate :: "16 word \<Rightarrow> bool" where
  "is_low_surrogate c \<longleftrightarrow> 0xDC00 \<le> c \<and> c \<le> 0xDFFF"

definition unicode_escape :: "16 word \<Rightarrow> jsstring" where
  "unicode_escape c =
     [0x5C, 0x75, digit_char (unat c div 4096), digit_char (unat c div 256 mod 16),
      digit_char (unat c div 16 mod 16), digit_char (unat c mod 16)]"

text \<open>The body of a quoted string: the short escapes, \<^verbatim>\<open>\uXXXX\<close> for the other control
  characters and for a surrogate that is not part of a pair, every other code unit as it
  is.\<close>

fun quote_chars :: "jsstring \<Rightarrow> jsstring" where
  "quote_chars [] = []"
| "quote_chars (c # cs) =
     (if c = 0x08 then [0x5C, 0x62] @ quote_chars cs
      else if c = 0x09 then [0x5C, 0x74] @ quote_chars cs
      else if c = 0x0A then [0x5C, 0x6E] @ quote_chars cs
      else if c = 0x0C then [0x5C, 0x66] @ quote_chars cs
      else if c = 0x0D then [0x5C, 0x72] @ quote_chars cs
      else if c = 0x22 then [0x5C, 0x22] @ quote_chars cs
      else if c = 0x5C then [0x5C, 0x5C] @ quote_chars cs
      else if c < 0x20 then unicode_escape c @ quote_chars cs
      else if is_high_surrogate c then
        (case cs of
           [] \<Rightarrow> unicode_escape c
         | d # ds \<Rightarrow>
             (if is_low_surrogate d then c # d # quote_chars ds
              else unicode_escape c @ quote_chars cs))
      else if is_low_surrogate c then unicode_escape c @ quote_chars cs
      else c # quote_chars cs)"

definition QuoteJSONString :: "jsstring \<Rightarrow> jsstring" where
  "QuoteJSONString s = [0x22] @ quote_chars s @ [0x22]"

text \<open>The text of an object from its keys and the serialisations of their values (a
  value that serialises to \<^verbatim>\<open>undefined\<close> is left out), and of an array (where it
  becomes \<^verbatim>\<open>null\<close>).\<close>

definition object_text :: "string list \<Rightarrow> jsstring option list \<Rightarrow> jsstring" where
  "object_text keys strs =
     [0x7B] @
     join_str [0x2C]
       (concat (map (\<lambda>(k, p). case p of None \<Rightarrow> [] | Some str \<Rightarrow> [QuoteJSONString (js k) @ [0x3A] @ str])
                    (zip keys strs))) @
     [0x7D]"

definition array_text :: "jsstring option list \<Rightarrow> jsstring" where
  "array_text strs =
     [0x5B] @
     join_str [0x2C] (map (\<lambda>p. case p of None \<Rightarrow> js ''null'' | Some str \<Rightarrow> str) strs) @
     [0x5D]"

text \<open>Pushing an object that is in the store and not on the stack leaves fewer objects
  to visit: the measure of the serialisation.\<close>

lemma unvisited_decreases:
  assumes "a < n" "a \<notin> S"
  shows "card ({..<n} - S) - Suc 0 < card ({..<n::nat} - S)"
proof -
  from assms have "a \<in> {..<n} - S" by simp
  moreover have "finite ({..<n} - S)" by simp
  ultimately have "0 < card ({..<n} - S)" by (auto simp: card_gt_0_iff)
  then show ?thesis by simp
qed

text \<open>
  \<open>SerializeJSONProperty\<close> with the stack of the objects being serialised: an object
  found on the stack is part of a cycle and raises a \<^verbatim>\<open>TypeError\<close>, as does a BigInt.
  The result \<open>None\<close> is \<^verbatim>\<open>undefined\<close>.
\<close>

function SerializeJSONProperty :: "heap \<Rightarrow> nat list \<Rightarrow> jsval \<Rightarrow> exn + jsstring option"
  and SerializeJSONList :: "heap \<Rightarrow> nat list \<Rightarrow> jsval list \<Rightarrow> exn + jsstring option list"
where
  "SerializeJSONProperty h stack VUndefined = Inr None"
| "SerializeJSONProperty h stack VNull = Inr (Some (js ''null''))"
| "SerializeJSONProperty h stack (VBool b) = Inr (Some (js (if b then ''true'' else ''false'')))"
| "SerializeJSONProperty h stack (VNumber n) = Inr (Some (int_toString n))"
| "SerializeJSONProperty h stack (VBigInt n) = Inl TypeError"
| "SerializeJSONProperty h stack (VString s) = Inr (Some (QuoteJSONString s))"
| "SerializeJSONProperty h stack (VRef a) =
     (if a \<in> set stack then Inl TypeError
      else if length h \<le> a then Inr (Some (js ''{}''))
      else (case h ! a of
              Object ns ps \<Rightarrow>
                (case SerializeJSONList h (a # stack) (map (\<lambda>(k, e, x). x) (filter (\<lambda>(k, e, x). e) ps)) of
                   Inl e \<Rightarrow> Inl e
                 | Inr strs \<Rightarrow> Inr (Some (object_text (map fst (filter (\<lambda>(k, e, x). e) ps)) strs)))
            | Array es \<Rightarrow>
                (case SerializeJSONList h (a # stack) es of
                   Inl e \<Rightarrow> Inl e
                 | Inr strs \<Rightarrow> Inr (Some (array_text strs)))))"
| "SerializeJSONList h stack [] = Inr []"
| "SerializeJSONList h stack (v # vs) =
     (case SerializeJSONProperty h stack v of
        Inl e \<Rightarrow> Inl e
      | Inr p \<Rightarrow>
          (case SerializeJSONList h stack vs of
             Inl e \<Rightarrow> Inl e
           | Inr ps \<Rightarrow> Inr (p # ps)))"
  by pat_completeness auto

termination
  by (relation "inv_image (less_than <*lex*> less_than)
        (\<lambda>x. case x of
               Inl (h, stack, v) \<Rightarrow> (card ({..<length h} - set stack), 0)
             | Inr (h, stack, vs) \<Rightarrow> (card ({..<length h} - set stack), Suc (length vs)))")
     (auto simp: not_le intro: unvisited_decreases)

definition JSON_stringify :: "heap \<Rightarrow> jsval \<Rightarrow> exn + jsstring option" where
  "JSON_stringify h v = SerializeJSONProperty h [] v"

section \<open>\<^verbatim>\<open>JSON.parse\<close>\<close>

text \<open>
  The value \<^verbatim>\<open>JSON.parse\<close> builds is a fresh tree.  A number keeps the text of its
  token; what it prints as is the host's number formatting, a parameter of the model.
\<close>

datatype json =
    JNull
  | JBool bool
  | JNumber jsstring
  | JString jsstring
  | JArray "json list"
  | JObject "(jsstring \<times> json) list"

datatype token =
    TLBracket | TRBracket | TLBrace | TRBrace | TComma | TColon
  | TString jsstring
  | TNumber jsstring
  | TTrue | TFalse | TNull

definition is_json_whitespace :: "16 word \<Rightarrow> bool" where
  "is_json_whitespace c \<longleftrightarrow> c \<in> set [0x09, 0x0A, 0x0D, 0x20]"

definition is_digit :: "16 word \<Rightarrow> bool" where
  "is_digit c \<longleftrightarrow> 0x30 \<le> c \<and> c \<le> 0x39"

definition is_number_char :: "16 word \<Rightarrow> bool" where
  "is_number_char c \<longleftrightarrow> is_digit c \<or> c \<in> set [0x2B, 0x2D, 0x2E, 0x45, 0x65]"

definition is_letter :: "16 word \<Rightarrow> bool" where
  "is_letter c \<longleftrightarrow> 0x61 \<le> c \<and> c \<le> 0x7A"

text \<open>The grammar of a number: an optional minus sign, an integer part without a leading
  zero, an optional fraction, an optional exponent.\<close>

definition digits1 :: "jsstring \<Rightarrow> bool" where
  "digits1 s \<longleftrightarrow> s \<noteq> [] \<and> (\<forall>c \<in> set s. is_digit c)"

definition valid_exponent :: "jsstring \<Rightarrow> bool" where
  "valid_exponent s =
     (case s of
        [] \<Rightarrow> True
      | e # r \<Rightarrow>
          (e = 0x65 \<or> e = 0x45) \<and>
          (case r of
             [] \<Rightarrow> False
           | g # r' \<Rightarrow> if g = 0x2B \<or> g = 0x2D then digits1 r' else digits1 r))"

definition valid_fraction :: "jsstring \<Rightarrow> bool" where
  "valid_fraction s =
     (case s of
        [] \<Rightarrow> True
      | p # r \<Rightarrow>
          if p = 0x2E then takeWhile is_digit r \<noteq> [] \<and> valid_exponent (dropWhile is_digit r)
          else valid_exponent s)"

definition valid_integer :: "jsstring \<Rightarrow> bool" where
  "valid_integer s =
     (case s of
        [] \<Rightarrow> False
      | d # r \<Rightarrow>
          if d = 0x30 then valid_fraction r
          else is_digit d \<and> valid_fraction (dropWhile is_digit r))"

definition valid_number :: "jsstring \<Rightarrow> bool" where
  "valid_number s =
     (case s of
        [] \<Rightarrow> False
      | m # r \<Rightarrow> if m = 0x2D then valid_integer r else valid_integer s)"

definition hex_value :: "16 word \<Rightarrow> nat option" where
  "hex_value c =
     (let n = unat c in
      if 48 \<le> n \<and> n \<le> 57 then Some (n - 48)
      else if 97 \<le> n \<and> n \<le> 102 then Some (n - 87)
      else if 65 \<le> n \<and> n \<le> 70 then Some (n - 55)
      else None)"

text \<open>The character a one-letter escape stands for.\<close>

definition unescape :: "16 word \<Rightarrow> 16 word option" where
  "unescape c =
     (if c = 0x22 then Some 0x22
      else if c = 0x5C then Some 0x5C
      else if c = 0x2F then Some 0x2F
      else if c = 0x62 then Some 0x08
      else if c = 0x66 then Some 0x0C
      else if c = 0x6E then Some 0x0A
      else if c = 0x72 then Some 0x0D
      else if c = 0x74 then Some 0x09
      else None)"

text \<open>
  The scanner reads one code unit at a time.  Its mode says what it is inside of: nothing,
  a string (with the code units read so far, latest first), an escape, the hexadecimal
  digits of a \<^verbatim>\<open>\u\<close> escape, a number or a word.
\<close>

datatype lex_mode =
    Between
  | InString jsstring
  | InEscape jsstring
  | InUnicode jsstring "nat list"
  | InNumber jsstring
  | InWord jsstring

text \<open>The token a mode ends with when a delimiter or the end of the text follows.\<close>

definition finish :: "lex_mode \<Rightarrow> token list option" where
  "finish m =
     (case m of
        Between \<Rightarrow> Some []
      | InNumber acc \<Rightarrow> if valid_number (rev acc) then Some [TNumber (rev acc)] else None
      | InWord acc \<Rightarrow>
          (if rev acc = js ''true'' then Some [TTrue]
           else if rev acc = js ''false'' then Some [TFalse]
           else if rev acc = js ''null'' then Some [TNull]
           else None)
      | _ \<Rightarrow> None)"

text \<open>A code unit read between two tokens: the tokens it completes and the next mode.\<close>

definition start :: "16 word \<Rightarrow> (token list \<times> lex_mode) option" where
  "start c =
     (if is_json_whitespace c then Some ([], Between)
      else if c = 0x5B then Some ([TLBracket], Between)
      else if c = 0x5D then Some ([TRBracket], Between)
      else if c = 0x7B then Some ([TLBrace], Between)
      else if c = 0x7D then Some ([TRBrace], Between)
      else if c = 0x2C then Some ([TComma], Between)
      else if c = 0x3A then Some ([TColon], Between)
      else if c = 0x22 then Some ([], InString [])
      else if c = 0x2D \<or> is_digit c then Some ([], InNumber [c])
      else if is_letter c then Some ([], InWord [c])
      else None)"

fun lex :: "lex_mode \<Rightarrow> jsstring \<Rightarrow> token list option" where
  "lex m [] = finish m"
| "lex (InString acc) (c # cs) =
     (if c = 0x22 then map_option (\<lambda>ts. TString (rev acc) # ts) (lex Between cs)
      else if c = 0x5C then lex (InEscape acc) cs
      else if c < 0x20 then None
      else lex (InString (c # acc)) cs)"
| "lex (InEscape acc) (c # cs) =
     (case unescape c of
        Some d \<Rightarrow> lex (InString (d # acc)) cs
      | None \<Rightarrow> if c = 0x75 then lex (InUnicode acc []) cs else None)"
| "lex (InUnicode acc ds) (c # cs) =
     (case hex_value c of
        None \<Rightarrow> None
      | Some d \<Rightarrow>
          (if length ds = 3
           then lex (InString (of_nat (foldl (\<lambda>n x. 16 * n + x) 0 (ds @ [d])) # acc)) cs
           else lex (InUnicode acc (ds @ [d])) cs))"
| "lex (InNumber acc) (c # cs) =
     (if is_number_char c then lex (InNumber (c # acc)) cs
      else (case finish (InNumber acc) of
              None \<Rightarrow> None
            | Some ts \<Rightarrow>
                (case start c of
                   None \<Rightarrow> None
                 | Some (ts', m') \<Rightarrow> map_option (\<lambda>r. ts @ ts' @ r) (lex m' cs))))"
| "lex (InWord acc) (c # cs) =
     (if is_letter c then lex (InWord (c # acc)) cs
      else (case finish (InWord acc) of
              None \<Rightarrow> None
            | Some ts \<Rightarrow>
                (case start c of
                   None \<Rightarrow> None
                 | Some (ts', m') \<Rightarrow> map_option (\<lambda>r. ts @ ts' @ r) (lex m' cs))))"
| "lex Between (c # cs) =
     (case start c of
        None \<Rightarrow> None
      | Some (ts', m') \<Rightarrow> map_option (\<lambda>r. ts' @ r) (lex m' cs))"

text \<open>
  The parser runs over the tokens with a stack of the arrays and objects that are open.
  A frame holds what has been read of its array or object, latest first; the frame of an
  object also holds the key whose value is being read.
\<close>

datatype frame =
    InArray "json list"
  | InObject "(jsstring \<times> json) list"
  | InMember "(jsstring \<times> json) list" jsstring

datatype expect =
    ExpValue
  | ExpValueOrClose
  | ExpKey
  | ExpKeyOrClose
  | ExpColon
  | ExpCommaOrClose
  | ExpEnd json

text \<open>A value is complete: it is the whole text, or an element, or the value of a
  member.\<close>

definition push_value :: "json \<Rightarrow> frame list \<Rightarrow> (frame list \<times> expect) option" where
  "push_value v stack =
     (case stack of
        [] \<Rightarrow> Some ([], ExpEnd v)
      | InArray vs # st \<Rightarrow> Some (InArray (v # vs) # st, ExpCommaOrClose)
      | InMember ms k # st \<Rightarrow> Some (InObject ((k, v) # ms) # st, ExpCommaOrClose)
      | InObject ms # st \<Rightarrow> None)"

definition wants_value :: "expect \<Rightarrow> bool" where
  "wants_value e \<longleftrightarrow> e = ExpValue \<or> e = ExpValueOrClose"

definition parse_step :: "token \<Rightarrow> frame list \<times> expect \<Rightarrow> (frame list \<times> expect) option" where
  "parse_step t s =
     (case s of (stack, e) \<Rightarrow>
       (case t of
          TLBracket \<Rightarrow> if wants_value e then Some (InArray [] # stack, ExpValueOrClose) else None
        | TLBrace \<Rightarrow> if wants_value e then Some (InObject [] # stack, ExpKeyOrClose) else None
        | TRBracket \<Rightarrow>
            (if e = ExpValueOrClose \<or> e = ExpCommaOrClose then
               (case stack of
                  InArray vs # st \<Rightarrow> push_value (JArray (rev vs)) st
                | _ \<Rightarrow> None)
             else None)
        | TRBrace \<Rightarrow>
            (if e = ExpKeyOrClose \<or> e = ExpCommaOrClose then
               (case stack of
                  InObject ms # st \<Rightarrow> push_value (JObject (rev ms)) st
                | _ \<Rightarrow> None)
             else None)
        | TComma \<Rightarrow>
            (if e = ExpCommaOrClose then
               (case stack of
                  InArray vs # st \<Rightarrow> Some (stack, ExpValue)
                | InObject ms # st \<Rightarrow> Some (stack, ExpKey)
                | _ \<Rightarrow> None)
             else None)
        | TColon \<Rightarrow> if e = ExpColon then Some (stack, ExpValue) else None
        | TString str \<Rightarrow>
            (if wants_value e then push_value (JString str) stack
             else if e = ExpKey \<or> e = ExpKeyOrClose then
               (case stack of
                  InObject ms # st \<Rightarrow> Some (InMember ms str # st, ExpColon)
                | _ \<Rightarrow> None)
             else None)
        | TNumber n \<Rightarrow> if wants_value e then push_value (JNumber n) stack else None
        | TTrue \<Rightarrow> if wants_value e then push_value (JBool True) stack else None
        | TFalse \<Rightarrow> if wants_value e then push_value (JBool False) stack else None
        | TNull \<Rightarrow> if wants_value e then push_value JNull stack else None))"

fun parse_tokens :: "frame list \<times> expect \<Rightarrow> token list \<Rightarrow> json option" where
  "parse_tokens s [] = (case s of ([], ExpEnd v) \<Rightarrow> Some v | _ \<Rightarrow> None)"
| "parse_tokens s (t # ts) =
     (case parse_step t s of
        None \<Rightarrow> None
      | Some s' \<Rightarrow> parse_tokens s' ts)"

definition JSON_parse :: "jsstring \<Rightarrow> exn + json" where
  "JSON_parse text =
     (case lex Between text of
        None \<Rightarrow> Inl SyntaxError
      | Some ts \<Rightarrow>
          (case parse_tokens ([], ExpValue) ts of
             None \<Rightarrow> Inl SyntaxError
           | Some v \<Rightarrow> Inr v))"

section \<open>The parameters of the host\<close>

text \<open>
  Three facts of the host are parameters of the model: the cryptographic digest of
  \<^verbatim>\<open>crypto.subtle.digest\<close> (algorithm name and bytes to bytes; it does not fail for the
  three algorithms of the page), the decimal text the host prints for the number a JSON
  number token denotes, and the largest number of arguments the engine accepts in one
  call.
\<close>

record platform =
  digest :: "jsstring \<Rightarrow> 8 word list \<Rightarrow> 8 word list"
  number_toString :: "jsstring \<Rightarrow> jsstring"
  max_arguments :: nat

text \<open>\<^verbatim>\<open>f(...xs)\<close>: the elements of the array become the arguments of the call.  An
  engine raises a \<^verbatim>\<open>RangeError\<close> when there are more of them than it accepts.\<close>

definition spread_arguments :: "platform \<Rightarrow> 'a list \<Rightarrow> exn + 'a list" where
  "spread_arguments P xs = (if max_arguments P < length xs then Inl RangeError else Inr xs)"

text \<open>\<^verbatim>\<open>String(v)\<close> of a parsed value and \<^verbatim>\<open>a.join(sep)\<close> of a parsed array.  An element
  \<^verbatim>\<open>null\<close> joins as the empty string, a nested array joins with a comma, and an object
  prints as \<^verbatim>\<open>[object Object]\<close> unless it has a key \<^verbatim>\<open>toString\<close>, which hides the
  inherited method behind a value that cannot be called: a \<^verbatim>\<open>TypeError\<close>.\<close>

fun ToString :: "platform \<Rightarrow> json \<Rightarrow> exn + jsstring"
  and Array_join :: "platform \<Rightarrow> jsstring \<Rightarrow> json list \<Rightarrow> exn + jsstring"
where
  "ToString P JNull = Inr (js ''null'')"
| "ToString P (JBool b) = Inr (js (if b then ''true'' else ''false''))"
| "ToString P (JNumber t) = Inr (number_toString P t)"
| "ToString P (JString s) = Inr s"
| "ToString P (JArray es) = Array_join P [0x2C] es"
| "ToString P (JObject ms) =
     (if js ''toString'' \<in> set (map fst ms) then Inl TypeError
      else Inr (js ''[object Object]''))"
| "Array_join P sep [] = Inr []"
| "Array_join P sep (e # es) =
     (case (if e = JNull then Inr [] else ToString P e) of
        Inl x \<Rightarrow> Inl x
      | Inr s \<Rightarrow>
          (if es = [] then Inr s
           else (case Array_join P sep es of
                   Inl x \<Rightarrow> Inl x
                 | Inr r \<Rightarrow> Inr (s @ sep @ r))))"

text \<open>\<^verbatim>\<open>v.join(sep)\<close> for any parsed value: only an array has the method.\<close>

definition call_join :: "platform \<Rightarrow> json \<Rightarrow> jsstring \<Rightarrow> exn + jsstring" where
  "call_join P v sep = (case v of JArray es \<Rightarrow> Array_join P sep es | _ \<Rightarrow> Inl TypeError)"

text \<open>\<^verbatim>\<open>new TextEncoder().encode(s)\<close>: UTF-8, a surrogate outside a pair becomes
  U+FFFD.\<close>

fun utf8_encode :: "jsstring \<Rightarrow> 8 word list" where
  "utf8_encode [] = []"
| "utf8_encode (c # cs) =
     (let n = unat c in
      if n < 0x80 then of_nat n # utf8_encode cs
      else if n < 0x800 then of_nat (0xC0 + n div 64) # of_nat (0x80 + n mod 64) # utf8_encode cs
      else if is_high_surrogate c then
        (case cs of
           [] \<Rightarrow> [0xEF, 0xBF, 0xBD]
         | d # ds \<Rightarrow>
             (if is_low_surrogate d then
                (let cp = 0x10000 + (n - 0xD800) * 1024 + (unat d - 0xDC00) in
                 of_nat (0xF0 + cp div 262144) # of_nat (0x80 + cp div 4096 mod 64) #
                 of_nat (0x80 + cp div 64 mod 64) # of_nat (0x80 + cp mod 64) # utf8_encode ds)
              else [0xEF, 0xBF, 0xBD] @ utf8_encode cs))
      else if is_low_surrogate c then [0xEF, 0xBF, 0xBD] @ utf8_encode cs
      else of_nat (0xE0 + n div 4096) # of_nat (0x80 + n div 64 mod 64) #
           of_nat (0x80 + n mod 64) # utf8_encode cs)"

definition hashHex :: "platform \<Rightarrow> jsstring \<Rightarrow> jsstring \<Rightarrow> jsstring" where
  "hashHex P message algorithm =
     concat (map (\<lambda>b. padStart 2 0x30 (toString_radix 16 (unat b)))
                 (digest P algorithm (utf8_encode message)))"

section \<open>The transform dispatcher\<close>

text \<open>
  The two reactive fields of the component \<^verbatim>\<open>ToolsApp\<close>, and its handler
  \<^verbatim>\<open>_inputChange\<close>.  The handler reads the value of the text area and of the selection
  control; they are its arguments here.  An exception that no \<^verbatim>\<open>try\<close> block of the
  handler catches is the result \<open>Inl\<close>.  The handler is asynchronous only in the three
  hash cases, where it clears the error flag before it awaits the digest and assigns the
  output after; the model is the handler run to completion.
\<close>

record ToolsApp =
  outputValue :: jsstring
  inputError :: bool

definition match_leading_ws :: "jsstring \<Rightarrow> jsstring option" where
  "match_leading_ws line =
     (case takeWhile is_whitespace line of [] \<Rightarrow> None | c # cs \<Rightarrow> Some (c # cs))"

text \<open>\<^verbatim>\<open>Math.min\<close> of the arguments it is given; \<^verbatim>\<open>Infinity\<close> for no argument.\<close>

definition Math_min :: "nat list \<Rightarrow> enat" where
  "Math_min xs = foldr (\<lambda>x m. min (enat x) m) xs \<infinity>"

text \<open>
  The case \<^verbatim>\<open>deindent\<close> of the handler.  Its call \<^verbatim>\<open>Math.min(...)\<close> spreads one argument
  for every line that begins with white space, and the case has no \<^verbatim>\<open>try\<close> block: the
  \<^verbatim>\<open>RangeError\<close> of the call leaves the handler.
\<close>

definition deindent_case :: "platform \<Rightarrow> jsstring \<Rightarrow> exn + jsstring" where
  "deindent_case P functionInput =
     (let lines = split_str LF functionInput in
      case spread_arguments P
             (map (\<lambda>match. length (the match))
                  (filter (\<lambda>match. match \<noteq> None) (map match_leading_ws lines))) of
        Inl e \<Rightarrow> Inl e
      | Inr arguments \<Rightarrow>
          (let m = Math_min arguments;
               num_characters_to_remove = (if m = \<infinity> then 0 else the_enat m)
           in Inr (join_str [LF]
                    (map (\<lambda>line. slice line (int num_characters_to_remove) None) lines))))"

text \<open>The deindent transform: the value the case computes when the call returns (lemma
  \<open>deindent_case_eq\<close> below).\<close>

definition deindent :: "jsstring \<Rightarrow> jsstring" where
  "deindent functionInput =
     (let lines = split_str LF functionInput;
          m = Math_min (map (\<lambda>match. length (the match))
                 (filter (\<lambda>match. match \<noteq> None) (map match_leading_ws lines)));
          num_characters_to_remove = (if m = \<infinity> then 0 else the_enat m)
      in join_str [LF] (map (\<lambda>line. slice line (int num_characters_to_remove) None) lines))"

text \<open>The expressions of the three JSON cases.  \<^verbatim>\<open>JSON.stringify\<close> gives
  \<^verbatim>\<open>undefined\<close> for no array and no string, so the case \<open>Inr None\<close> is never taken
  below: for the array it only makes the function total, for the string it is the
  \<^verbatim>\<open>TypeError\<close> of calling \<^verbatim>\<open>slice\<close> on \<^verbatim>\<open>undefined\<close>.\<close>

definition lines_to_json_array :: "jsstring \<Rightarrow> exn + jsstring" where
  "lines_to_json_array functionInput =
     (case alloc [] (Array (map VString (split_str LF functionInput))) of
        (h, lines) \<Rightarrow>
          (case JSON_stringify h lines of
             Inl e \<Rightarrow> Inl e
           | Inr None \<Rightarrow> Inl TypeError
           | Inr (Some str) \<Rightarrow> Inr str))"

definition json_escape :: "jsstring \<Rightarrow> exn + jsstring" where
  "json_escape functionInput =
     (case JSON_stringify [] (VString functionInput) of
        Inl e \<Rightarrow> Inl e
      | Inr None \<Rightarrow> Inl TypeError
      | Inr (Some str) \<Rightarrow> Inr (slice str 1 (Some (- 1))))"

definition json_array_to_lines :: "platform \<Rightarrow> jsstring \<Rightarrow> exn + jsstring" where
  "json_array_to_lines P functionInput =
     (case JSON_parse functionInput of
        Inl e \<Rightarrow> Inl e
      | Inr v \<Rightarrow> call_join P v [LF])"

text \<open>What a \<^verbatim>\<open>try\<close> block with the \<^verbatim>\<open>catch\<close> of the handler does with the value or
  the exception of its expression.\<close>

definition try_output :: "ToolsApp \<Rightarrow> exn + jsstring \<Rightarrow> ToolsApp" where
  "try_output this r =
     (case r of
        Inr v \<Rightarrow> this\<lparr>outputValue := v\<rparr>
      | Inl e \<Rightarrow> this\<lparr>inputError := True, outputValue := []\<rparr>)"

definition inputChange :: "platform \<Rightarrow> jsstring \<Rightarrow> jsstring \<Rightarrow> ToolsApp \<Rightarrow> exn + ToolsApp" where
  "inputChange P functionName functionInput this0 =
     (let this = this0\<lparr>inputError := False\<rparr> in
      if functionName = [] then Inr this
      else if functionName = js ''encode-base64'' then Inr (try_output this (btoa functionInput))
      else if functionName = js ''decode-base64'' then Inr (try_output this (atob functionInput))
      else if functionName = js ''SHA-1'' \<or> functionName = js ''SHA-256''
              \<or> functionName = js ''SHA-512'' then
        Inr (this\<lparr>outputValue := hashHex P functionInput functionName\<rparr>)
      else if functionName = js ''json-escape'' then
        Inr (try_output this (json_escape functionInput))
      else if functionName = js ''lines-to-json-array'' then
        Inr (try_output this (lines_to_json_array functionInput))
      else if functionName = js ''json-array-to-lines'' then
        Inr (try_output this (json_array_to_lines P functionInput))
      else if functionName = js ''length'' then
        Inr (this\<lparr>outputValue := int_toString (int (length functionInput))\<rparr>)
      else if functionName = js ''deindent'' then
        (case deindent_case P functionInput of
           Inl e \<Rightarrow> Inl e
         | Inr v \<Rightarrow> Inr (this\<lparr>outputValue := v\<rparr>))
      else Inl (Error (js ''Unexpected function: '' @ functionName)))"

text \<open>The ten values of the options of the selection control.\<close>

definition function_identifiers :: "jsstring list" where
  "function_identifiers =
     map js [''decode-base64'', ''encode-base64'', ''SHA-1'', ''SHA-256'', ''SHA-512'',
             ''json-escape'', ''lines-to-json-array'', ''json-array-to-lines'',
             ''length'', ''deindent'']"

section \<open>The error reporter\<close>

text \<open>
  The two listeners registered on the window.  Each receives an event, builds the body of
  the report as a fresh object, and passes the serialised body to \<^verbatim>\<open>fetch\<close>.  The
  result of a listener is the request it issues, or the exception that leaves it.
\<close>

record ErrorEvent =
  error :: jsval
  colno :: int
  filename :: jsstring
  lineno :: int
  message :: jsstring

record PromiseRejectionEvent =
  reason :: jsval

record FetchRequest =
  url :: string
  http_method :: string
  body :: "jsstring option"
  content_type :: string
  keepalive :: bool

text \<open>\<^verbatim>\<open>target.key = v\<close> on an object: a new key is added after the others.\<close>

definition set_prop :: "heap \<Rightarrow> jsval \<Rightarrow> string \<Rightarrow> jsval \<Rightarrow> heap" where
  "set_prop h target key v =
     (case target of
        VRef a \<Rightarrow>
          (if a < length h then
             (case h ! a of
                Object ns ps \<Rightarrow>
                  h[a := Object ns
                     (if key \<in> set (map fst ps)
                      then map (\<lambda>(k, e, x). if k = key then (k, e, v) else (k, e, x)) ps
                      else ps @ [(key, True, v)])]
              | Array es \<Rightarrow> h)
           else h)
      | _ \<Rightarrow> h)"

definition getErrorDetails :: "heap \<Rightarrow> jsval \<Rightarrow> jsobj" where
  "getErrorDetails h err =
     Object [''Object'']
       [(''cause'', True, get_prop h err ''cause''),
        (''stack'', True, get_prop h err ''stack''),
        (''name'', True, get_prop h err ''name'')]"

definition getDomExceptionDetails :: "heap \<Rightarrow> jsval \<Rightarrow> jsobj" where
  "getDomExceptionDetails h err =
     Object [''Object'']
       [(''message'', True, get_prop h err ''message''),
        (''name'', True, get_prop h err ''name''),
        (''code'', True, get_prop h err ''code'')]"

text \<open>\<^verbatim>\<open>let raw = undefined; try { raw = JSON.stringify(v); } catch {}\<close>\<close>

definition try_stringify :: "heap \<Rightarrow> jsval \<Rightarrow> jsval" where
  "try_stringify h v =
     (case JSON_stringify h v of
        Inl e \<Rightarrow> VUndefined
      | Inr None \<Rightarrow> VUndefined
      | Inr (Some str) \<Rightarrow> VString str)"

text \<open>\<^verbatim>\<open>v?.constructor?.name ?? typeof v\<close>\<close>

definition type_tag :: "heap \<Rightarrow> jsval \<Rightarrow> string" where
  "type_tag h v = (case constructor_name h v of Some n \<Rightarrow> n | None \<Rightarrow> typeof v)"

text \<open>The two branches on the class of the failure value, in the order of the source.\<close>

definition errorDetails :: "heap \<Rightarrow> jsval \<Rightarrow> heap \<times> jsval" where
  "errorDetails h v =
     (if instanceof h v ''Error'' then alloc h (getErrorDetails h v)
      else if instanceof h v ''DOMException'' then alloc h (getDomExceptionDetails h v)
      else (h, VUndefined))"

definition error_body :: "heap \<Rightarrow> ErrorEvent \<Rightarrow> heap \<times> jsval" where
  "error_body h event =
     (let rawError = try_stringify h (error event) in
      case alloc h (Object [''Object'']
             [(''colno'', True, VNumber (colno event)),
              (''filename'', True, VString (filename event)),
              (''lineno'', True, VNumber (lineno event)),
              (''message'', True, VString (message event)),
              (''type'', True, VString (js (type_tag h (error event)))),
              (''rawError'', True, rawError)]) of
        (h1, report) \<Rightarrow>
          (case errorDetails h1 (error event) of
             (h2, details) \<Rightarrow> (set_prop h2 report ''error'' details, report)))"

definition on_error :: "heap \<Rightarrow> ErrorEvent \<Rightarrow> exn + FetchRequest" where
  "on_error h event =
     (case error_body h event of
        (h', report) \<Rightarrow>
          (case JSON_stringify h' report of
             Inl e \<Rightarrow> Inl e
           | Inr str \<Rightarrow>
               Inr \<lparr>url = ''/api/report/error'', http_method = ''POST'', body = str,
                    content_type = ''application/json'', keepalive = True\<rparr>))"

definition rejection_body :: "heap \<Rightarrow> PromiseRejectionEvent \<Rightarrow> heap \<times> jsval" where
  "rejection_body h event =
     (let rawReason = try_stringify h (reason event) in
      case alloc h (Object [''Object'']
             [(''type'', True, VString (js (type_tag h (reason event)))),
              (''rawReason'', True, rawReason)]) of
        (h1, report) \<Rightarrow>
          (case errorDetails h1 (reason event) of
             (h2, details) \<Rightarrow> (set_prop h2 report ''error'' details, report)))"

definition on_unhandledrejection :: "heap \<Rightarrow> PromiseRejectionEvent \<Rightarrow> exn + FetchRequest" where
  "on_unhandledrejection h event =
     (case rejection_body h event of
        (h', report) \<Rightarrow>
          (case JSON_stringify h' report of
             Inl e \<Rightarrow> Inl e
           | Inr str \<Rightarrow>
               Inr \<lparr>url = ''/api/report/unhandled-rejection'', http_method = ''POST'', body = str,
                    content_type = ''application/json'', keepalive = True\<rparr>))"

text \<open>
  Objects of the host used as inputs below.  An \<^verbatim>\<open>Error\<close> made by
  \<^verbatim>\<open>new Error(message, {cause})\<close> has \<^verbatim>\<open>message\<close>, \<^verbatim>\<open>stack\<close> and \<^verbatim>\<open>cause\<close> as own
  properties that are not enumerable and reads \<^verbatim>\<open>name\<close> from its prototype.  A
  \<^verbatim>\<open>DOMException\<close> reads \<^verbatim>\<open>message\<close>, \<^verbatim>\<open>name\<close> and \<^verbatim>\<open>code\<close> from accessors of its
  prototype, and the prototype of \<^verbatim>\<open>DOMException\<close> inherits from that of \<^verbatim>\<open>Error\<close>
  (Web IDL), so \<^verbatim>\<open>Error\<close> is on its prototype chain.
\<close>

definition new_Error :: "jsstring \<Rightarrow> jsstring \<Rightarrow> jsval \<Rightarrow> jsobj" where
  "new_Error msg stack cause =
     Object [''Error'', ''Object'']
       [(''message'', False, VString msg),
        (''stack'', False, VString stack),
        (''name'', False, VString (js ''Error'')),
        (''cause'', False, cause)]"

definition new_DOMException :: "jsstring \<Rightarrow> jsstring \<Rightarrow> int \<Rightarrow> jsstring \<Rightarrow> jsobj" where
  "new_DOMException msg name code stack =
     Object [''DOMException'', ''Error'', ''Object'']
       [(''message'', False, VString msg),
        (''name'', False, VString name),
        (''code'', False, VNumber code),
        (''stack'', False, VString stack)]"

text \<open>\<^verbatim>\<open>const o = {}; o.self = o; throw new Error("boom", {cause: o})\<close>\<close>

definition cyclic_cause_heap :: heap where
  "cyclic_cause_heap =
     [new_Error (js ''boom'') (js ''Error: boom'') (VRef 1),
      Object [''Object''] [(''self'', True, VRef 1)]]"

text \<open>\<^verbatim>\<open>throw new DOMException("gone", "AbortError")\<close>\<close>

definition dom_exception_heap :: heap where
  "dom_exception_heap =
     [new_DOMException (js ''gone'') (js ''AbortError'') 20 (js ''Error: gone'')]"

definition event_of :: "jsval \<Rightarrow> ErrorEvent" where
  "event_of v =
     \<lparr>error = v, colno = 7, filename = js ''app.js'', lineno = 3, message = js ''Uncaught''\<rparr>"

section \<open>The deindent transform as the specification words it\<close>

text \<open>
  The length of the leading run of white space of a line, the lines that begin with a
  white space character, and the transform described in words: the minimum of the runs of
  the indented lines is dropped from every line, and nothing is dropped when no line is
  indented.
\<close>

definition leading_run :: "jsstring \<Rightarrow> nat" where
  "leading_run line = length (takeWhile is_whitespace line)"

definition has_leading_ws :: "jsstring \<Rightarrow> bool" where
  "has_leading_ws line \<longleftrightarrow> (case line of [] \<Rightarrow> False | c # cs \<Rightarrow> is_whitespace c)"

text \<open>The specification of deindent.\<close>

definition deindent_spec :: "jsstring \<Rightarrow> jsstring" where
  "deindent_spec s =
     (let lines = split_str LF s;
          indented = filter has_leading_ws lines;
          n = (if indented = [] then 0 else Min (set (map leading_run indented)))
      in join_str [LF] (map (drop n) lines))"

text \<open>The number of characters deindent removes from every line.\<close>

definition strip_count :: "jsstring \<Rightarrow> nat" where
  "strip_count s = (let indented = filter has_leading_ws (split_str LF s)
                    in if indented = [] then 0 else Min (set (map leading_run indented)))"


section \<open>Sample inputs\<close>

definition sample_platform :: platform where
  "sample_platform =
     \<lparr>digest = (\<lambda>algorithm bytes. []), number_toString = (\<lambda>t. t), max_arguments = 124183\<rparr>"

text \<open>Two hundred thousand lines of one space each: more indented lines than the sample
  engine accepts as arguments.\<close>

definition many_indented_lines :: jsstring where
  "many_indented_lines = concat (replicate 200000 [0x20, LF])"

definition uneven_indent :: jsstring where
  "uneven_indent = js ''  a'' @ [LF] @ js ''    b''"

definition even_indent :: jsstring where
  "even_indent = js ''  a'' @ [LF] @ js ''  b''"


text \<open>Two lines without indentation.\<close>

definition two_lines :: jsstring where
  "two_lines = js ''a'' @ [LF] @ js ''b''"

section \<open>Auxiliary definitions of the proofs\<close>

text \<open>The six-bit groups of a sequence of bytes and the padding that follows them: the
  two parts of the text \<open>b64_encode\<close> produces.\<close>

fun sextets :: "nat list \<Rightarrow> nat list" where
  "sextets (a # b # c # bs) =
     [a div 4, (a mod 4) * 16 + b div 16, (b mod 16) * 4 + c div 64, c mod 64] @ sextets bs"
| "sextets [a, b] = [a div 4, (a mod 4) * 16 + b div 16, (b mod 16) * 4]"
| "sextets [a] = [a div 4, (a mod 4) * 16]"
| "sextets [] = []"

fun padding :: "nat list \<Rightarrow> jsstring" where
  "padding (a # b # c # bs) = padding bs"
| "padding [a, b] = [0x3D]"
| "padding [a] = [0x3D, 0x3D]"
| "padding [] = []"

text \<open>The tokens of the elements of an array of strings, separated by commas.\<close>

fun element_tokens :: "jsstring list \<Rightarrow> token list" where
  "element_tokens [] = []"
| "element_tokens [l] = [TString l]"
| "element_tokens (l # l' # ls) = TString l # TComma # element_tokens (l' # ls)"

section \<open>Lines: splitting and joining\<close>

lemma slice_drop: "slice s (int n) None = drop n s"
  by (cases "n \<le> length s") (simp_all add: slice_def Let_def min_def)

lemma split_str_nonempty: "split_str sep s \<noteq> []"
  by (induction s) (auto split: list.splits)

lemma join_split: "join_str [sep] (split_str sep s) = s"
proof (induction s)
  case Nil show ?case by simp
next
  case (Cons c cs)
  show ?case
  proof (cases "split_str sep cs")
    case Nil with split_str_nonempty show ?thesis by blast
  next
    case (Cons l ls)
    with Cons.IH show ?thesis by (cases ls) auto
  qed
qed

lemma split_str_no_sep: "l \<in> set (split_str sep s) \<Longrightarrow> sep \<notin> set l"
  by (induction s arbitrary: l) (auto split: list.splits if_splits)

lemma split_append_sep:
  "sep \<notin> set l \<Longrightarrow> split_str sep (l @ sep # s) = l # split_str sep s"
  by (induction l) auto

lemma split_no_sep: "sep \<notin> set l \<Longrightarrow> split_str sep l = [l]"
  by (induction l) auto

lemma split_join:
  "ls \<noteq> [] \<Longrightarrow> \<forall>l \<in> set ls. sep \<notin> set l \<Longrightarrow> split_str sep (join_str [sep] ls) = ls"
proof (induction "[sep]" ls rule: join_str.induct)
  case 1 then show ?case by simp
next
  case (2 l) then show ?case by (simp add: split_no_sep)
next
  case (3 l l' ls)
  then show ?case by (simp add: split_append_sep)
qed

lemma Math_min_Nil: "Math_min [] = \<infinity>"
  by (simp add: Math_min_def)

lemma Math_min_Cons: "Math_min (x # xs) = min (enat x) (Math_min xs)"
  by (simp add: Math_min_def)

lemma Math_min_eq: "xs \<noteq> [] \<Longrightarrow> Math_min xs = enat (Min (set xs))"
proof (induction xs)
  case Nil then show ?case by simp
next
  case (Cons x xs)
  show ?case
  proof (cases "xs = []")
    case True then show ?thesis by (simp add: Math_min_Cons Math_min_Nil)
  next
    case False
    with Cons.IH show ?thesis by (simp add: Math_min_Cons min_def)
  qed
qed

lemma match_None_iff: "match_leading_ws l = None \<longleftrightarrow> \<not> has_leading_ws l"
  by (cases l) (auto simp: match_leading_ws_def has_leading_ws_def)

lemma match_length: "has_leading_ws l \<Longrightarrow> length (the (match_leading_ws l)) = leading_run l"
  by (cases l) (auto simp: match_leading_ws_def has_leading_ws_def leading_run_def)

lemma match_widths:
  "map (\<lambda>m. length (the m)) (filter (\<lambda>m. m \<noteq> None) (map match_leading_ws ls))
     = map leading_run (filter has_leading_ws ls)"
proof (induction ls)
  case Nil show ?case by simp
next
  case (Cons l ls)
  show ?case
  proof (cases "has_leading_ws l")
    case True
    then have "match_leading_ws l \<noteq> None" by (simp add: match_None_iff)
    with True Cons.IH show ?thesis by (simp add: match_length)
  next
    case False
    then have "match_leading_ws l = None" by (simp add: match_None_iff)
    with False Cons.IH show ?thesis by simp
  qed
qed

lemma deindent_eq_spec: "deindent s = deindent_spec s"
proof -
  let ?ind = "filter has_leading_ws (split_str LF s)"
  let ?m = "Math_min (map leading_run ?ind)"
  have m: "(if ?m = \<infinity> then 0 else the_enat ?m)
             = (if ?ind = [] then 0 else Min (set (map leading_run ?ind)))"
    by (cases "?ind = []") (simp_all add: Math_min_Nil Math_min_eq)
  have "deindent s = join_str [LF] (map (drop (if ?m = \<infinity> then 0 else the_enat ?m)) (split_str LF s))"
    unfolding deindent_def Let_def match_widths slice_drop ..
  also have "\<dots> = deindent_spec s"
    unfolding deindent_spec_def Let_def m ..
  finally show ?thesis .
qed

lemma Min_set_mem: "(xs :: nat list) \<noteq> [] \<Longrightarrow> Min (set xs) \<in> set xs"
  using Min_in [of "set xs"] by simp

lemma leading_run_pos: "has_leading_ws l \<Longrightarrow> 0 < leading_run l"
  by (cases l) (auto simp: has_leading_ws_def leading_run_def)


lemma deindent_strip: "deindent s = join_str [LF] (map (drop (strip_count s)) (split_str LF s))"
  by (simp add: deindent_eq_spec deindent_spec_def strip_count_def Let_def)

lemma strip_count_zero: "\<forall>l \<in> set (split_str LF s). \<not> has_leading_ws l \<Longrightarrow> strip_count s = 0"
  by (simp add: strip_count_def Let_def filter_empty_conv)

lemma strip_count_pos:
  assumes "l \<in> set (split_str LF s)" "has_leading_ws l"
  shows "0 < strip_count s"
proof -
  let ?ind = "filter has_leading_ws (split_str LF s)"
  from assms have "l \<in> set ?ind" by simp
  then have ne: "?ind \<noteq> []" by (cases ?ind) auto
  have "\<forall>n \<in> set (map leading_run ?ind). 0 < n"
    by (auto simp: leading_run_pos)
  moreover from ne have "map leading_run ?ind \<noteq> []" by simp
  then have "Min (set (map leading_run ?ind)) \<in> set (map leading_run ?ind)"
    by (rule Min_set_mem)
  ultimately have "0 < Min (set (map leading_run ?ind))" by blast
  with ne show ?thesis by (simp add: strip_count_def Let_def)
qed

lemma deindent_lines:
  "split_str LF (deindent s) = map (drop (strip_count s)) (split_str LF s)"
proof -
  have "\<forall>l \<in> set (map (drop (strip_count s)) (split_str LF s)). LF \<notin> set l"
    by (auto dest: in_set_dropD split_str_no_sep)
  then show ?thesis
    by (simp add: deindent_strip split_join split_str_nonempty)
qed

lemma deindent_unchanged:
  "\<forall>l \<in> set (split_str LF s). \<not> has_leading_ws l \<Longrightarrow> deindent s = s"
  by (simp add: deindent_strip strip_count_zero join_split)

lemmas deindent_eval =
  deindent_def js_def LF_def match_leading_ws_def Math_min_def is_whitespace_def slice_def
  has_leading_ws_def

section \<open>Base64: decoding what was encoded\<close>

lemma unat_of_nat16: "n < 65536 \<Longrightarrow> unat (of_nat n :: 16 word) = n"
  by (simp add: unat_of_nat take_bit_nat_eq_self)

lemma unat_b64_char:
  "i < 64 \<Longrightarrow> unat (b64_char i) =
     (if i < 26 then 65 + i else if i < 52 then 71 + i else if i < 62 then i - 4
      else if i = 62 then 43 else 47)"
proof -
  assume i: "i < 64"
  have a: "unat (of_nat (65 + i) :: 16 word) = 65 + i" using i by (intro unat_of_nat16) simp
  have b: "unat (of_nat (71 + i) :: 16 word) = 71 + i" using i by (intro unat_of_nat16) simp
  have c: "unat (of_nat (i - 4) :: 16 word) = i - 4" using i by (intro unat_of_nat16) simp
  show ?thesis unfolding b64_char_def
    by (simp only: a b c if_distrib [of unat] unsigned_numeral) simp
qed

lemma b64_value_char: "i < 64 \<Longrightarrow> b64_value (b64_char i) = Some i"
  unfolding b64_value_def Let_def by (simp only: unat_b64_char) (simp, arith)

lemma b64_value_not_special:
  "b64_value c = Some i \<Longrightarrow> \<not> is_ascii_whitespace c \<and> c \<noteq> 0x3D"
  by (auto simp: b64_value_def is_ascii_whitespace_def Let_def split: if_splits)

lemma sextet_arith:
  fixes a b c :: nat
  shows "b < 256 \<Longrightarrow> a div 4 * 4 + ((a mod 4) * 16 + b div 16) div 16 = a"
    and "b < 256 \<Longrightarrow> c < 256 \<Longrightarrow>
           ((a mod 4) * 16 + b div 16) mod 16 * 16 + ((b mod 16) * 4 + c div 64) div 4 = b"
    and "c < 256 \<Longrightarrow> ((b mod 16) * 4 + c div 64) mod 4 * 64 + c mod 64 = c"
    and "b < 256 \<Longrightarrow> ((a mod 4) * 16 + b div 16) mod 16 * 16 + ((b mod 16) * 4) div 4 = b"
    and "a div 4 * 4 + ((a mod 4) * 16) div 16 = a"
  by (simp_all add: div_add1_eq mod_add_eq)

lemma sextet_bounds:
  fixes a b c :: nat
  assumes "a < 256" "b < 256" "c < 256"
  shows "a div 4 < 64" "(a mod 4) * 16 + b div 16 < 64" "(b mod 16) * 4 + c div 64 < 64"
    "c mod 64 < 64" "(b mod 16) * 4 < 64" "(a mod 4) * 16 < 64"
  using assms by (simp_all add: less_mult_imp_div_less)

lemma sextets_bound: "\<forall>b \<in> set bs. b < 256 \<Longrightarrow> \<forall>x \<in> set (sextets bs). x < 64"
proof (induction bs rule: sextets.induct)
  case (1 a b c bs)
  then have lt: "a < 256" "b < 256" "c < 256" by simp_all
  have "a div 4 < 64" "(a mod 4) * 16 + b div 16 < 64" "(b mod 16) * 4 + c div 64 < 64"
    "c mod 64 < 64"
    by (rule sextet_bounds [OF lt])+
  with 1 show ?case by simp
next
  case (2 a b)
  then have lt: "a < 256" "b < 256" "b < 256" by simp_all
  have "a div 4 < 64" "(a mod 4) * 16 + b div 16 < 64" "(b mod 16) * 4 < 64"
    by (rule sextet_bounds [OF lt])+
  then show ?case by simp
next
  case (3 a)
  then have lt: "a < 256" "a < 256" "a < 256" by simp_all
  have "a div 4 < 64" "(a mod 4) * 16 < 64"
    by (rule sextet_bounds [OF lt])+
  then show ?case by simp
qed simp

lemma b64_encode_split: "b64_encode bs = map b64_char (sextets bs) @ padding bs"
  by (induction bs rule: sextets.induct) simp_all

lemma b64_decode_sextets: "\<forall>b \<in> set bs. b < 256 \<Longrightarrow> b64_decode (sextets bs) = bs"
proof (induction bs rule: sextets.induct)
  case (1 a b c bs)
  then have lt: "b < 256" "c < 256" by simp_all
  have "a div 4 * 4 + ((a mod 4) * 16 + b div 16) div 16 = a"
    "((a mod 4) * 16 + b div 16) mod 16 * 16 + ((b mod 16) * 4 + c div 64) div 4 = b"
    "((b mod 16) * 4 + c div 64) mod 4 * 64 + c mod 64 = c"
    by (rule sextet_arith lt)+
  with 1 show ?case by simp
next
  case (2 a b)
  then have lt: "b < 256" by simp
  have "a div 4 * 4 + ((a mod 4) * 16 + b div 16) div 16 = a"
    "((a mod 4) * 16 + b div 16) mod 16 * 16 + ((b mod 16) * 4) div 4 = b"
    by (rule sextet_arith lt)+
  then show ?case by simp
next
  case (3 a)
  have "a div 4 * 4 + ((a mod 4) * 16) div 16 = a" by (rule sextet_arith)
  then show ?case by simp
qed simp

lemma length_sextets_padding: "(length (sextets bs) + length (padding bs)) mod 4 = 0"
  by (induction bs rule: sextets.induct) simp_all

lemma length_sextets: "length (sextets bs) mod 4 \<noteq> 1"
  by (induction bs rule: sextets.induct) (simp_all add: mod_Suc)


lemma padding_cases: "padding bs = [] \<or> padding bs = [0x3D] \<or> padding bs = [0x3D, 0x3D]"
  by (induction bs rule: padding.induct) simp_all

lemma padding_sextets: "padding bs \<noteq> [] \<Longrightarrow> sextets bs \<noteq> []"
  by (induction bs rule: padding.induct) simp_all

lemma strip_padding_body:
  assumes chars: "\<forall>c \<in> set chars. c \<noteq> 0x3D"
    and len: "(length chars + length pad) mod 4 = 0"
    and pad: "pad = [] \<or> pad = [0x3D] \<or> pad = [0x3D, 0x3D]"
    and ne: "pad \<noteq> [] \<Longrightarrow> chars \<noteq> []"
  shows "strip_padding (chars @ pad) = chars"
proof -
  have last_body: "chars \<noteq> [] \<Longrightarrow> last chars \<noteq> 0x3D"
    using chars last_in_set by blast
  from pad consider "pad = []" | "pad = [0x3D]" | "pad = [0x3D, 0x3D]" by blast
  then show ?thesis
  proof cases
    case 1
    then show ?thesis using last_body by (auto simp: strip_padding_def)
  next
    case 2
    with ne have "chars \<noteq> []" by simp
    with 2 len last_body show ?thesis
      by (simp add: strip_padding_def butlast_append)
  next
    case 3
    with ne have "chars \<noteq> []" by simp
    with 3 len last_body show ?thesis
      by (simp add: strip_padding_def butlast_append)
  qed
qed

lemma atob_b64_encode:
  assumes "\<forall>b \<in> set bs. b < 256"
  shows "atob (b64_encode bs) = Inr (map of_nat bs)"
proof -
  let ?chars = "map b64_char (sextets bs)"
  from assms have sx: "\<forall>x \<in> set (sextets bs). x < 64" by (rule sextets_bound)
  then have val: "\<forall>c \<in> set ?chars. \<exists>i. b64_value c = Some i"
    by (auto simp: b64_value_char)
  then have special: "\<forall>c \<in> set ?chars. \<not> is_ascii_whitespace c \<and> c \<noteq> 0x3D"
    using b64_value_not_special by blast
  have pad_ws: "\<forall>c \<in> set (padding bs). \<not> is_ascii_whitespace c"
    using padding_cases [of bs] by (auto simp: is_ascii_whitespace_def)
  have filt: "filter (\<lambda>c. \<not> is_ascii_whitespace c) (b64_encode bs) = b64_encode bs"
    using special pad_ws by (simp add: b64_encode_split)
  have strip: "strip_padding (b64_encode bs) = ?chars"
    unfolding b64_encode_split
  proof (rule strip_padding_body)
    show "\<forall>c \<in> set ?chars. c \<noteq> 0x3D" using special by blast
    show "(length ?chars + length (padding bs)) mod 4 = 0"
      using length_sextets_padding [of bs] by simp
    show "padding bs = [] \<or> padding bs = [0x3D] \<or> padding bs = [0x3D, 0x3D]"
      by (rule padding_cases)
    show "padding bs \<noteq> [] \<Longrightarrow> ?chars \<noteq> []" using padding_sextets [of bs] by simp
  qed
  have len: "length ?chars mod 4 \<noteq> 1" using length_sextets [of bs] by simp
  have ok: "\<not> (\<exists>c \<in> set ?chars. b64_value c = None)" using val by auto
  have sx_back: "map (\<lambda>c. the (b64_value c)) ?chars = sextets bs"
      using sx by (simp add: b64_value_char map_idI)
  show ?thesis
    unfolding atob_def filt strip Let_def
    using len ok by (simp only: sx_back b64_decode_sextets [OF assms] if_False)
qed

lemma map_of_nat_unat: "map (of_nat \<circ> unat) s = (s :: 16 word list)"
  by (induction s) simp_all

lemma atob_btoa:
  assumes "\<forall>c \<in> set s. c \<le> 0xFF"
  shows "btoa s = Inr (b64_encode (map unat s)) \<and> atob (b64_encode (map unat s)) = Inr s"
proof -
  from assms have no: "\<not> (\<exists>c \<in> set s. 0xFF < c)" by (auto simp: not_less)
  have "\<forall>b \<in> set (map unat s). b < 256"
  proof
    fix b assume "b \<in> set (map unat s)"
    then obtain c where "c \<in> set s" "b = unat c" by auto
    with assms have "c \<le> 0xFF" by blast
    then have "unat c \<le> unat (0xFF :: 16 word)" by (simp only: word_le_nat_alt)
    with \<open>b = unat c\<close> show "b < 256" by simp
  qed
  then have "atob (b64_encode (map unat s)) = Inr (map of_nat (map unat s))"
    by (rule atob_b64_encode)
  with no show ?thesis by (simp add: btoa_def map_of_nat_unat)
qed

lemma function_names_distinct:
  "js ''encode-base64'' \<noteq> []" "js ''decode-base64'' \<noteq> []"
  "js ''decode-base64'' \<noteq> js ''encode-base64''"
  by (simp_all add: js_def)

section \<open>JSON: parsing what was serialised\<close>

lemma unat_digit_char:
  "d < 16 \<Longrightarrow> unat (digit_char d) = (if d < 10 then 48 + d else 87 + d)"
proof -
  assume d: "d < 16"
  have a: "unat (of_nat (48 + d) :: 16 word) = 48 + d" using d by (intro unat_of_nat16) simp
  have b: "unat (of_nat (87 + d) :: 16 word) = 87 + d" using d by (intro unat_of_nat16) simp
  show ?thesis unfolding digit_char_def
    by (simp only: a b if_distrib [of unat])
qed

lemma hex_value_digit_char: "d < 16 \<Longrightarrow> hex_value (digit_char d) = Some d"
  unfolding hex_value_def Let_def by (simp only: unat_digit_char) auto

lemma hex_digits_value:
  fixes n :: nat
  shows "16 * (16 * (16 * (n div 4096) + n div 256 mod 16) + n div 16 mod 16) + n mod 16 = n"
proof -
  have d1: "n div 4096 = n div 256 div 16" using div_mult2_eq [of n 256 16] by simp
  have d2: "n div 256 = n div 16 div 16" using div_mult2_eq [of n 16 16] by simp
  have a: "16 * (n div 256 div 16) + n div 256 mod 16 = n div 256" by simp
  have b: "16 * (n div 16 div 16) + n div 16 mod 16 = n div 16" by simp
  have c: "16 * (n div 16) + n mod 16 = n" by simp
  have "16 * (16 * (16 * (n div 4096) + n div 256 mod 16) + n div 16 mod 16) + n mod 16
        = 16 * (16 * (n div 256) + n div 16 mod 16) + n mod 16"
    by (simp only: d1 a)
  also have "\<dots> = 16 * (n div 16) + n mod 16" by (simp only: d2 b)
  also have "\<dots> = n" by (rule c)
  finally show ?thesis .
qed

lemma unat_lt_65536: "unat (c :: 16 word) < 65536"
  using unsigned_less [of c, where ?'a = nat] by simp

lemma lex_unicode_escape:
  "lex (InString acc) (unicode_escape c @ rest) = lex (InString (c # acc)) rest"
proof -
  let ?n = "unat c"
  have n: "?n < 65536" by (rule unat_lt_65536)
  then have "?n div 4096 < 16" by simp
  then have h1: "hex_value (digit_char (?n div 4096)) = Some (?n div 4096)"
    by (rule hex_value_digit_char)
  have h2: "hex_value (digit_char (?n div 256 mod 16)) = Some (?n div 256 mod 16)"
    by (rule hex_value_digit_char) simp
  have h3: "hex_value (digit_char (?n div 16 mod 16)) = Some (?n div 16 mod 16)"
    by (rule hex_value_digit_char) simp
  have h4: "hex_value (digit_char (?n mod 16)) = Some (?n mod 16)"
    by (rule hex_value_digit_char) simp
  have c: "(of_nat (16 * (16 * (16 * (?n div 4096) + ?n div 256 mod 16) + ?n div 16 mod 16)
              + ?n mod 16) :: 16 word) = c"
    by (simp only: hex_digits_value) simp
  show ?thesis
    unfolding unicode_escape_def
    using c by (simp add: unescape_def h1 h2 h3 h4 del: of_nat_add of_nat_mult)
qed


lemma lex_literal:
  "c \<noteq> 0x22 \<Longrightarrow> c \<noteq> 0x5C \<Longrightarrow> \<not> c < 0x20 \<Longrightarrow>
     lex (InString acc) (c # rest) = lex (InString (c # acc)) rest"
  by simp

lemma lex_short_escape:
  "unescape x = Some c \<Longrightarrow> lex (InString acc) (0x5C # x # rest) = lex (InString (c # acc)) rest"
  by simp

lemma surrogate_literal:
  "is_high_surrogate c \<or> is_low_surrogate c \<Longrightarrow> c \<noteq> 0x22 \<and> c \<noteq> 0x5C \<and> \<not> c < 0x20"
  by (auto simp: is_high_surrogate_def is_low_surrogate_def word_le_nat_alt word_less_nat_alt)

lemma quote_chars_cases:
  "(\<exists>d. unescape d = Some c \<and> quote_chars (c # cs) = 0x5C # d # quote_chars cs)
   \<or> quote_chars (c # cs) = unicode_escape c @ quote_chars cs
   \<or> (\<exists>d ds. cs = d # ds \<and> is_high_surrogate c \<and> is_low_surrogate d
          \<and> quote_chars (c # cs) = c # d # quote_chars ds)
   \<or> (c \<noteq> 0x22 \<and> c \<noteq> 0x5C \<and> \<not> c < 0x20 \<and> quote_chars (c # cs) = c # quote_chars cs)"
  by (auto simp: unescape_def split: list.splits)


lemma lex_quote_chars:
  "lex (InString acc) (quote_chars s @ 0x22 # rest)
     = map_option (\<lambda>ts. TString (rev acc @ s) # ts) (lex Between rest)"
proof (induction "length s" arbitrary: s acc rule: less_induct)
  case less
  show ?case
  proof (cases s)
    case Nil
    then show ?thesis by simp
  next
    case (Cons c cs)
    have IH: "lex (InString acc') (quote_chars t @ 0x22 # rest)
                = map_option (\<lambda>ts. TString (rev acc' @ t) # ts) (lex Between rest)"
      if "length t < length s" for t acc'
      using less that by blast
    from quote_chars_cases [of c cs]
    consider (short) d where "unescape d = Some c" "quote_chars s = 0x5C # d # quote_chars cs"
      | (unicode) "quote_chars s = unicode_escape c @ quote_chars cs"
      | (pair) d ds where "cs = d # ds" "is_high_surrogate c" "is_low_surrogate d"
          "quote_chars s = c # d # quote_chars ds"
      | (literal) "c \<noteq> 0x22" "c \<noteq> 0x5C" "\<not> c < 0x20" "quote_chars s = c # quote_chars cs"
      unfolding Cons by blast
    then show ?thesis
    proof cases
      case short
      have "lex (InString acc) (quote_chars s @ 0x22 # rest)
              = lex (InString (c # acc)) (quote_chars cs @ 0x22 # rest)"
        using short by (simp only: append_Cons lex_short_escape)
      also have "\<dots> = map_option (\<lambda>ts. TString (rev (c # acc) @ cs) # ts) (lex Between rest)"
        by (rule IH) (simp add: Cons)
      finally show ?thesis by (simp add: Cons)
    next
      case unicode
      have "lex (InString acc) (quote_chars s @ 0x22 # rest)
              = lex (InString (c # acc)) (quote_chars cs @ 0x22 # rest)"
        using unicode by (simp only: append_assoc lex_unicode_escape)
      also have "\<dots> = map_option (\<lambda>ts. TString (rev (c # acc) @ cs) # ts) (lex Between rest)"
        by (rule IH) (simp add: Cons)
      finally show ?thesis by (simp add: Cons)
    next
      case pair
      from pair(2) have c: "c \<noteq> 0x22" "c \<noteq> 0x5C" "\<not> c < 0x20"
        using surrogate_literal [of c] by simp_all
      from pair(3) have d: "d \<noteq> 0x22" "d \<noteq> 0x5C" "\<not> d < 0x20"
        using surrogate_literal [of d] by simp_all
      have "lex (InString acc) (quote_chars s @ 0x22 # rest)
              = lex (InString (d # c # acc)) (quote_chars ds @ 0x22 # rest)"
        using pair(4) c d by simp
      also have "\<dots> = map_option (\<lambda>ts. TString (rev (d # c # acc) @ ds) # ts) (lex Between rest)"
        by (rule IH) (simp add: Cons pair(1))
      finally show ?thesis by (simp add: Cons pair(1))
    next
      case literal
      have "lex (InString acc) (quote_chars s @ 0x22 # rest)
              = lex (InString (c # acc)) (quote_chars cs @ 0x22 # rest)"
        using literal by simp
      also have "\<dots> = map_option (\<lambda>ts. TString (rev (c # acc) @ cs) # ts) (lex Between rest)"
        by (rule IH) (simp add: Cons)
      finally show ?thesis by (simp add: Cons)
    qed
  qed
qed

lemma lex_quoted:
  "lex Between (QuoteJSONString s @ rest) = map_option (\<lambda>ts. TString s # ts) (lex Between rest)"
  using lex_quote_chars [of "[]" s rest]
  by (simp add: QuoteJSONString_def start_def is_json_whitespace_def option.map_comp o_def option.map_ident)

lemma append_single: "(@) [x] = (#) x"
  by (rule ext) simp

lemma lex_comma: "lex Between (0x2C # rest) = map_option (\<lambda>ts. TComma # ts) (lex Between rest)"
  by (simp add: start_def is_json_whitespace_def append_single)

lemma lex_open: "lex Between (0x5B # rest) = map_option (\<lambda>ts. TLBracket # ts) (lex Between rest)"
  by (simp add: start_def is_json_whitespace_def append_single)

lemma lex_close: "lex Between [0x5D] = Some [TRBracket]"
  by (simp add: start_def is_json_whitespace_def finish_def)

lemma lex_elements:
  "lex Between (join_str [0x2C] (map QuoteJSONString ls) @ rest)
     = map_option (\<lambda>ts. element_tokens ls @ ts) (lex Between rest)"
proof (induction ls rule: element_tokens.induct)
  case 1
  show ?case by (simp add: option.map_ident)
next
  case (2 l)
  show ?case by (simp add: lex_quoted)
next
  case (3 l l' ls)
  then show ?case
    by (simp add: lex_quoted lex_comma option.map_comp o_def del: lex.simps)
qed

lemma lex_array_text:
  "lex Between (array_text (map (\<lambda>l. Some (QuoteJSONString l)) ls))
     = Some (TLBracket # element_tokens ls @ [TRBracket])"
proof -
  have "array_text (map (\<lambda>l. Some (QuoteJSONString l)) ls)
          = 0x5B # join_str [0x2C] (map QuoteJSONString ls) @ [0x5D]"
    by (simp add: array_text_def o_def)
  then show ?thesis by (simp add: lex_open lex_elements lex_close del: lex.simps)
qed

lemma parse_elements:
  "ls \<noteq> [] \<Longrightarrow> wants_value e \<Longrightarrow>
     parse_tokens ([InArray vs], e) (element_tokens ls @ [TRBracket])
       = Some (JArray (rev vs @ map JString ls))"
proof (induction ls arbitrary: vs e rule: element_tokens.induct)
  case 1
  then show ?case by simp
next
  case (2 l)
  then show ?case by (simp add: parse_step_def push_value_def)
next
  case (3 l l' ls)
  have "parse_tokens ([InArray vs], e) (element_tokens (l # l' # ls) @ [TRBracket])
          = parse_tokens ([InArray (JString l # vs)], ExpValue) (element_tokens (l' # ls) @ [TRBracket])"
    using "3.prems" by (simp add: parse_step_def push_value_def)
  also have "\<dots> = Some (JArray (rev (JString l # vs) @ map JString (l' # ls)))"
    by (rule "3.IH") (simp_all add: wants_value_def)
  finally show ?case by simp
qed

lemma JSON_parse_array_text:
  assumes "ls \<noteq> []"
  shows "JSON_parse (array_text (map (\<lambda>l. Some (QuoteJSONString l)) ls))
           = Inr (JArray (map JString ls))"
proof -
  have "parse_tokens ([], ExpValue) (TLBracket # element_tokens ls @ [TRBracket])
          = parse_tokens ([InArray []], ExpValueOrClose) (element_tokens ls @ [TRBracket])"
    by (simp add: parse_step_def wants_value_def)
  also have "\<dots> = Some (JArray (map JString ls))"
    using parse_elements [OF assms, of ExpValueOrClose "[]"] by (simp add: wants_value_def)
  finally show ?thesis by (simp add: JSON_parse_def lex_array_text)
qed

lemma SerializeJSONList_strings:
  "SerializeJSONList h stack (map VString ls) = Inr (map (\<lambda>l. Some (QuoteJSONString l)) ls)"
  by (induction ls) simp_all

lemma lines_to_json_array_eq:
  "lines_to_json_array s
     = Inr (array_text (map (\<lambda>l. Some (QuoteJSONString l)) (split_str LF s)))"
  by (simp add: lines_to_json_array_def alloc_def JSON_stringify_def SerializeJSONList_strings)

lemma Array_join_strings: "Array_join P sep (map JString ls) = Inr (join_str sep ls)"
  by (induction sep ls rule: join_str.induct) simp_all

lemma json_array_to_lines_eq:
  "json_array_to_lines P (array_text (map (\<lambda>l. Some (QuoteJSONString l)) (split_str LF s))) = Inr s"
  by (simp add: json_array_to_lines_def JSON_parse_array_text split_str_nonempty call_join_def
      Array_join_strings join_split)

lemma function_names_json:
  "js ''lines-to-json-array'' \<noteq> []"
  "js ''lines-to-json-array'' \<noteq> js ''encode-base64''"
  "js ''lines-to-json-array'' \<noteq> js ''decode-base64''"
  "js ''lines-to-json-array'' \<noteq> js ''SHA-1''"
  "js ''lines-to-json-array'' \<noteq> js ''SHA-256''"
  "js ''lines-to-json-array'' \<noteq> js ''SHA-512''"
  "js ''lines-to-json-array'' \<noteq> js ''json-escape''"
  "js ''json-array-to-lines'' \<noteq> []"
  "js ''json-array-to-lines'' \<noteq> js ''encode-base64''"
  "js ''json-array-to-lines'' \<noteq> js ''decode-base64''"
  "js ''json-array-to-lines'' \<noteq> js ''SHA-1''"
  "js ''json-array-to-lines'' \<noteq> js ''SHA-256''"
  "js ''json-array-to-lines'' \<noteq> js ''SHA-512''"
  "js ''json-array-to-lines'' \<noteq> js ''json-escape''"
  "js ''json-array-to-lines'' \<noteq> js ''lines-to-json-array''"
  by (simp_all add: js_def)

section \<open>The cases of the dispatcher\<close>

lemma try_output_shape:
  "\<exists>out err. (\<forall>this. try_output (this\<lparr>inputError := False\<rparr>) r
                    = \<lparr>outputValue = out, inputError = err\<rparr>) \<and> (err \<longrightarrow> out = [])"
proof (cases r)
  case (Inl e)
  then have "\<forall>this. try_output (this\<lparr>inputError := False\<rparr>) r
               = \<lparr>outputValue = [], inputError = True\<rparr>"
    by (simp add: try_output_def)
  then show ?thesis by blast
next
  case (Inr v)
  then have "\<forall>this. try_output (this\<lparr>inputError := False\<rparr>) r
               = \<lparr>outputValue = v, inputError = False\<rparr>"
    by (simp add: try_output_def)
  then show ?thesis by blast
qed

lemma set_output_shape:
  "\<exists>out err. (\<forall>this. this\<lparr>inputError := False, outputValue := v\<rparr>
                    = \<lparr>outputValue = out, inputError = err\<rparr>) \<and> (err \<longrightarrow> out = [])"
proof -
  have "\<forall>this. this\<lparr>inputError := False, outputValue := v\<rparr>
          = \<lparr>outputValue = v, inputError = False\<rparr>"
    by simp
  then show ?thesis by blast
qed

lemma inputChange_cases:
  "inputChange P (js ''decode-base64'') x this = Inr (try_output (this\<lparr>inputError := False\<rparr>) (atob x))"
  "inputChange P (js ''encode-base64'') x this = Inr (try_output (this\<lparr>inputError := False\<rparr>) (btoa x))"
  "inputChange P (js ''SHA-1'') x this
     = Inr (this\<lparr>inputError := False, outputValue := hashHex P x (js ''SHA-1'')\<rparr>)"
  "inputChange P (js ''SHA-256'') x this
     = Inr (this\<lparr>inputError := False, outputValue := hashHex P x (js ''SHA-256'')\<rparr>)"
  "inputChange P (js ''SHA-512'') x this
     = Inr (this\<lparr>inputError := False, outputValue := hashHex P x (js ''SHA-512'')\<rparr>)"
  "inputChange P (js ''json-escape'') x this
     = Inr (try_output (this\<lparr>inputError := False\<rparr>) (json_escape x))"
  "inputChange P (js ''lines-to-json-array'') x this
     = Inr (try_output (this\<lparr>inputError := False\<rparr>) (lines_to_json_array x))"
  "inputChange P (js ''json-array-to-lines'') x this
     = Inr (try_output (this\<lparr>inputError := False\<rparr>) (json_array_to_lines P x))"
  "inputChange P (js ''length'') x this
     = Inr (this\<lparr>inputError := False, outputValue := int_toString (int (length x))\<rparr>)"
  "inputChange P (js ''deindent'') x this
     = (case deindent_case P x of
          Inl e \<Rightarrow> Inl e
        | Inr v \<Rightarrow> Inr (this\<lparr>inputError := False, outputValue := v\<rparr>))"
  by (simp_all add: inputChange_def js_def)

text \<open>The deindent case raises when the indented lines outnumber the arguments the engine
  accepts, and otherwise returns the value of the transform.\<close>

lemma deindent_case_eq:
  "deindent_case P s =
     (if max_arguments P < length (filter has_leading_ws (split_str LF s)) then Inl RangeError
      else Inr (deindent s))"
proof -
  have "length (map (\<lambda>match. length (the match))
           (filter (\<lambda>match. match \<noteq> None) (map match_leading_ws (split_str LF s))))
          = length (filter has_leading_ws (split_str LF s))"
    by (simp only: match_widths length_map)
  then show ?thesis
    by (simp add: deindent_case_def deindent_def spread_arguments_def Let_def)
qed

lemma inputChange_deindent:
  "inputChange P (js ''deindent'') s this =
     (if max_arguments P < length (filter has_leading_ws (split_str LF s)) then Inl RangeError
      else Inr (this\<lparr>inputError := False, outputValue := deindent s\<rparr>))"
  by (simp add: inputChange_cases deindent_case_eq)

text \<open>Where the deindent case does not raise, the handler returns a state that does not
  depend on the state before the call: an output with the error flag cleared, or the empty
  output with the flag set.\<close>

lemma inputChange_returns:
  assumes "functionName \<in> set function_identifiers"
    and "functionName = js ''deindent'' \<Longrightarrow>
           length (filter has_leading_ws (split_str LF functionInput)) \<le> max_arguments P"
  shows "\<exists>out err.
           (\<forall>this. inputChange P functionName functionInput this
                     = Inr \<lparr>outputValue = out, inputError = err\<rparr>)
           \<and> (err \<longrightarrow> out = [])"
proof -
  from assms(1) consider
      "functionName = js ''decode-base64''" | "functionName = js ''encode-base64''"
    | "functionName = js ''SHA-1''" | "functionName = js ''SHA-256''"
    | "functionName = js ''SHA-512''" | "functionName = js ''json-escape''"
    | "functionName = js ''lines-to-json-array''" | "functionName = js ''json-array-to-lines''"
    | "functionName = js ''length''" | "functionName = js ''deindent''"
    by (auto simp: function_identifiers_def)
  then show ?thesis
  proof cases
    case 1 then show ?thesis using try_output_shape [of "atob functionInput"]
      by (simp only: inputChange_cases sum.inject)
  next
    case 2 then show ?thesis using try_output_shape [of "btoa functionInput"]
      by (simp only: inputChange_cases sum.inject)
  next
    case 3 then show ?thesis using set_output_shape
      by (simp only: inputChange_cases sum.inject)
  next
    case 4 then show ?thesis using set_output_shape
      by (simp only: inputChange_cases sum.inject)
  next
    case 5 then show ?thesis using set_output_shape
      by (simp only: inputChange_cases sum.inject)
  next
    case 6 then show ?thesis using try_output_shape [of "json_escape functionInput"]
      by (simp only: inputChange_cases sum.inject)
  next
    case 7 then show ?thesis using try_output_shape [of "lines_to_json_array functionInput"]
      by (simp only: inputChange_cases sum.inject)
  next
    case 8 then show ?thesis using try_output_shape [of "json_array_to_lines P functionInput"]
      by (simp only: inputChange_cases sum.inject)
  next
    case 9 then show ?thesis using set_output_shape
      by (simp only: inputChange_cases sum.inject)
  next
    case 10
    with assms(2) have "\<not> max_arguments P < length (filter has_leading_ws (split_str LF functionInput))"
      by (simp add: not_less)
    with 10 show ?thesis using set_output_shape [of "deindent functionInput"]
      by (simp only: inputChange_deindent if_False sum.inject)
  qed
qed

lemma indented_lines_replicate:
  "filter has_leading_ws (split_str LF (concat (replicate n [0x20, LF]))) = replicate n [0x20]"
proof (induction n)
  case 0
  show ?case by (simp add: has_leading_ws_def)
next
  case (Suc n)
  have sp: "has_leading_ws [0x20]"
    by (simp add: has_leading_ws_def is_whitespace_def)
  have "LF \<notin> set [0x20]" by (simp add: LF_def)
  then have "split_str LF ([0x20] @ LF # concat (replicate n [0x20, LF]))
               = [0x20] # split_str LF (concat (replicate n [0x20, LF]))"
    by (rule split_append_sep)
  then have "filter has_leading_ws (split_str LF (concat (replicate (Suc n) [0x20, LF])))
               = [0x20] # filter has_leading_ws (split_str LF (concat (replicate n [0x20, LF])))"
    using sp by simp
  with Suc show ?case by simp
qed

section \<open>The reports of the error reporter\<close>

lemma quote_key_simps:
  "QuoteJSONString (js ''colno'') = js ''\"colno\"''"
  "QuoteJSONString (js ''filename'') = js ''\"filename\"''"
  "QuoteJSONString (js ''lineno'') = js ''\"lineno\"''"
  "QuoteJSONString (js ''message'') = js ''\"message\"''"
  "QuoteJSONString (js ''type'') = js ''\"type\"''"
  "QuoteJSONString (js ''rawError'') = js ''\"rawError\"''"
  "QuoteJSONString (js ''rawReason'') = js ''\"rawReason\"''"
  "QuoteJSONString (js ''error'') = js ''\"error\"''"
  "QuoteJSONString (js ''cause'') = js ''\"cause\"''"
  "QuoteJSONString (js ''stack'') = js ''\"stack\"''"
  "QuoteJSONString (js ''name'') = js ''\"name\"''"
  "QuoteJSONString (js ''String'') = js ''\"String\"''"
  "QuoteJSONString (js ''Error'') = js ''\"Error\"''"
  by (simp_all add: QuoteJSONString_def js_def is_high_surrogate_def is_low_surrogate_def)

lemma on_error_string:
  "on_error h \<lparr>error = VString s, colno = c, filename = f, lineno = l, message = m\<rparr> =
     Inr \<lparr>url = ''/api/report/error'', http_method = ''POST'',
          body = Some (js ''{\"colno\":'' @ int_toString c @
                       js '',\"filename\":'' @ QuoteJSONString f @
                       js '',\"lineno\":'' @ int_toString l @
                       js '',\"message\":'' @ QuoteJSONString m @
                       js '',\"type\":\"String\",\"rawError\":'' @
                       QuoteJSONString (QuoteJSONString s) @ js ''}''),
          content_type = ''application/json'', keepalive = True\<rparr>"
  apply (simp add: on_error_def error_body_def try_stringify_def JSON_stringify_def
      type_tag_def constructor_name_def errorDetails_def instanceof_def alloc_def set_prop_def
      object_text_def quote_key_simps)
  apply (simp add: js_def)
  done


lemma on_unhandledrejection_string:
  "on_unhandledrejection h \<lparr>reason = VString s\<rparr> =
     Inr \<lparr>url = ''/api/report/unhandled-rejection'', http_method = ''POST'',
          body = Some (js ''{\"type\":\"String\",\"rawReason\":'' @
                       QuoteJSONString (QuoteJSONString s) @ js ''}''),
          content_type = ''application/json'', keepalive = True\<rparr>"
  apply (simp add: on_unhandledrejection_def rejection_body_def try_stringify_def JSON_stringify_def
      type_tag_def constructor_name_def errorDetails_def instanceof_def alloc_def set_prop_def
      object_text_def quote_key_simps)
  apply (simp add: js_def)
  done

lemma get_prop_append:
  "instanceof h v C \<Longrightarrow> get_prop (h @ h') v key = get_prop h v key"
  by (auto simp: instanceof_def get_prop_def nth_append split: jsval.splits)

lemma instanceof_append:
  "instanceof h v C \<Longrightarrow> instanceof (h @ h') v C"
  by (auto simp: instanceof_def nth_append split: jsval.splits)

lemma errorDetails_Error:
  assumes "instanceof h v ''Error''"
  shows "errorDetails (h @ [b]) v = (h @ [b, getErrorDetails h v], VRef (Suc (length h)))"
proof -
  from assms have "instanceof (h @ [b]) v ''Error''" by (rule instanceof_append)
  moreover from assms have "getErrorDetails (h @ [b]) v = getErrorDetails h v"
    by (simp add: getErrorDetails_def get_prop_append)
  ultimately show ?thesis by (simp add: errorDetails_def alloc_def)
qed

lemma error_body_Error:
  assumes "instanceof h (error ev) ''Error''"
  shows "case error_body h ev of (h', report) \<Rightarrow>
           (case get_prop h' report ''error'' of
              VRef d \<Rightarrow> get_prop h' (VRef d) ''name'' = get_prop h (error ev) ''name''
                       \<and> get_prop h' (VRef d) ''stack'' = get_prop h (error ev) ''stack''
            | _ \<Rightarrow> False)"
  by (simp add: error_body_def alloc_def errorDetails_Error [OF assms] set_prop_def
      get_prop_def getErrorDetails_def nth_append)

lemma rejection_body_Error:
  assumes "instanceof h (reason ev) ''Error''"
  shows "case rejection_body h ev of (h', report) \<Rightarrow>
           (case get_prop h' report ''error'' of
              VRef d \<Rightarrow> get_prop h' (VRef d) ''name'' = get_prop h (reason ev) ''name''
                       \<and> get_prop h' (VRef d) ''stack'' = get_prop h (reason ev) ''stack''
            | _ \<Rightarrow> False)"
  by (simp add: rejection_body_def alloc_def errorDetails_Error [OF assms] set_prop_def
      get_prop_def getErrorDetails_def nth_append)

lemma on_error_new_Error:
  assumes "a < length h" "h ! a = new_Error msg stk VUndefined"
  shows "on_error h \<lparr>error = VRef a, colno = c, filename = f, lineno = l, message = m\<rparr> =
     Inr \<lparr>url = ''/api/report/error'', http_method = ''POST'',
          body = Some (js ''{\"colno\":'' @ int_toString c @
                       js '',\"filename\":'' @ QuoteJSONString f @
                       js '',\"lineno\":'' @ int_toString l @
                       js '',\"message\":'' @ QuoteJSONString m @
                       js '',\"type\":\"Error\",\"rawError\":\"{}\",\"error\":{\"stack\":'' @
                       QuoteJSONString stk @ js '',\"name\":\"Error\"}}''),
          content_type = ''application/json'', keepalive = True\<rparr>"
proof -
  from assms have inst: "instanceof h (VRef a) ''Error''"
    by (simp add: instanceof_def new_Error_def)
  from assms have raw: "try_stringify h (VRef a) = VString (js ''{}'')"
    by (simp add: try_stringify_def JSON_stringify_def new_Error_def object_text_def js_def)
  from assms have tag: "type_tag h (VRef a) = ''Error''"
    by (simp add: type_tag_def constructor_name_def new_Error_def)
  from assms have det: "getErrorDetails h (VRef a) =
      Object [''Object''] [(''cause'', True, VUndefined), (''stack'', True, VString stk),
                          (''name'', True, VString (js ''Error''))]"
    by (simp add: getErrorDetails_def get_prop_def new_Error_def)
  have q: "QuoteJSONString (js ''{}'') = js ''\"{}\"''"
    by (simp add: QuoteJSONString_def js_def is_high_surrogate_def is_low_surrogate_def)
  show ?thesis
    apply (simp add: on_error_def error_body_def raw tag alloc_def errorDetails_Error [OF inst] det
        set_prop_def JSON_stringify_def nth_append object_text_def quote_key_simps q)
    apply (simp add: js_def)
    done
qed

section \<open>Claims about the transform dispatcher\<close>

text \<open>
  C2, as the specification states it: a dispatch on the empty function identifier leaves
  both the output and the error flag as they were.  The handler clears the error flag
  before it looks at the identifier, so from a state whose flag is set the state after the
  call differs from the state before it.
\<close>

theorem inputChange_empty_counterexample:
  "inputChange sample_platform [] [] \<lparr>outputValue = [], inputError = True\<rparr>
     \<noteq> Inr \<lparr>outputValue = [], inputError = True\<rparr>"
  by (simp add: inputChange_def)

text \<open>
  C2, amended: a dispatch on the empty function identifier returns without an exception,
  leaves the output as it was and leaves the error flag cleared.
\<close>

theorem inputChange_empty:
  "inputChange P [] functionInput this = Inr (this\<lparr>inputError := False\<rparr>)"
  by (simp add: inputChange_def)

text \<open>
  C3, as the specification states it: deindent is idempotent.  On two lines indented by
  two and by four spaces the first application leaves the second line indented by two,
  and the second application removes two characters from every line again.
\<close>

theorem deindent_not_idempotent:
  "deindent (deindent uneven_indent) \<noteq> deindent uneven_indent"
  by (simp add: uneven_indent_def deindent_eval)

text \<open>
  C3, amended: applying deindent to its own output changes nothing exactly when no line
  of that output begins with a white space character.
\<close>

theorem deindent_idempotent_iff:
  "deindent (deindent s) = deindent s \<longleftrightarrow>
     (\<forall>l \<in> set (split_str LF (deindent s)). \<not> has_leading_ws l)"
proof
  assume "\<forall>l \<in> set (split_str LF (deindent s)). \<not> has_leading_ws l"
  then show "deindent (deindent s) = deindent s" by (rule deindent_unchanged)
next
  assume eq: "deindent (deindent s) = deindent s"
  show "\<forall>l \<in> set (split_str LF (deindent s)). \<not> has_leading_ws l"
  proof (rule ccontr)
    assume "\<not> ?thesis"
    then obtain l where l: "l \<in> set (split_str LF (deindent s))" "has_leading_ws l" by blast
    then have pos: "0 < strip_count (deindent s)" by (rule strip_count_pos)
    from eq have "split_str LF (deindent (deindent s)) = split_str LF (deindent s)" by simp
    then have "map (drop (strip_count (deindent s))) (split_str LF (deindent s)) = split_str LF (deindent s)"
      by (simp only: deindent_lines [of "deindent s"])
    then have "map (drop (strip_count (deindent s))) (split_str LF (deindent s)) = map id (split_str LF (deindent s))"
      by simp
    with l(1) have "drop (strip_count (deindent s)) l = l"
      by (metis id_apply map_eq_conv)
    then have "length (drop (strip_count (deindent s)) l) = length l" by simp
    then have len: "length l - strip_count (deindent s) = length l" by simp
    from l(2) have "l \<noteq> []" by (auto simp: has_leading_ws_def)
    then have "0 < length l" by simp
    with len pos show False by arith
  qed
qed

theorem deindent_idempotent_iff_witness:
  "split_str LF (deindent even_indent) = [js ''a'', js ''b'']
     \<and> \<not> has_leading_ws (js ''a'') \<and> \<not> has_leading_ws (js ''b'')
     \<and> deindent (deindent even_indent) = deindent even_indent"
proof -
  have lines: "split_str LF (deindent even_indent) = [js ''a'', js ''b'']"
    by (simp add: even_indent_def deindent_eval)
  have a: "\<not> has_leading_ws (js ''a'')" and b: "\<not> has_leading_ws (js ''b'')"
    by (simp_all add: deindent_eval)
  from lines a b have "\<forall>l \<in> set (split_str LF (deindent even_indent)). \<not> has_leading_ws l"
    by simp
  with deindent_idempotent_iff [of even_indent]
  have "deindent (deindent even_indent) = deindent even_indent" by blast
  with lines a b show ?thesis by blast
qed




text \<open>
  C5, evaluated at the failing inputs: the case \<^verbatim>\<open>deindent\<close> is a supported function
  identifier, its call \<^verbatim>\<open>Math.min(...)\<close> spreads one argument for every indented line,
  and no \<^verbatim>\<open>try\<close> block encloses it as one encloses the base64 and JSON cases.  On an
  input with more indented lines than the engine accepts as arguments the handler does not
  return a state: a \<^verbatim>\<open>RangeError\<close> leaves it.
\<close>

theorem deindent_raises_RangeError:
  "max_arguments P < length (filter has_leading_ws (split_str LF functionInput)) \<Longrightarrow>
     inputChange P (js ''deindent'') functionInput this = Inl RangeError"
  by (simp add: inputChange_deindent)

text \<open>C5 at a concrete input: 200000 lines of one space, on an engine that accepts 124183
  arguments.\<close>

theorem deindent_raises_RangeError_witness:
  "js ''deindent'' \<in> set function_identifiers
   \<and> length (filter has_leading_ws (split_str LF many_indented_lines)) = 200000
   \<and> max_arguments sample_platform = 124183
   \<and> inputChange sample_platform (js ''deindent'') many_indented_lines
        \<lparr>outputValue = js ''old'', inputError = True\<rparr> = Inl RangeError"
proof -
  have m: "js ''deindent'' \<in> set function_identifiers"
    by (simp add: function_identifiers_def)
  have n: "length (filter has_leading_ws (split_str LF many_indented_lines)) = 200000"
    unfolding many_indented_lines_def by (simp only: indented_lines_replicate length_replicate)
  have k: "max_arguments sample_platform = 124183" by (simp add: sample_platform_def)
  have "max_arguments sample_platform
          < length (filter has_leading_ws (split_str LF many_indented_lines))"
    by (simp add: n k)
  then have "inputChange sample_platform (js ''deindent'') many_indented_lines
        \<lparr>outputValue = js ''old'', inputError = True\<rparr> = Inl RangeError"
    by (rule deindent_raises_RangeError)
  with m n k show ?thesis by blast
qed

text \<open>
  C7: for a string whose code units are at most 255, encode-base64 succeeds, and
  decode-base64 applied to its output succeeds and gives the string back.
\<close>

theorem base64_round_trip:
  assumes "\<forall>c \<in> set s. c \<le> 0xFF"
  shows "\<exists>encoded.
           inputChange P (js ''encode-base64'') s this
             = Inr \<lparr>outputValue = encoded, inputError = False\<rparr>
           \<and> inputChange P (js ''decode-base64'') encoded \<lparr>outputValue = encoded, inputError = False\<rparr>
             = Inr \<lparr>outputValue = s, inputError = False\<rparr>"
proof -
  from atob_btoa [OF assms]
  have enc: "btoa s = Inr (b64_encode (map unat s))"
    and dec: "atob (b64_encode (map unat s)) = Inr s" by simp_all
  have "inputChange P (js ''encode-base64'') s this
          = Inr \<lparr>outputValue = b64_encode (map unat s), inputError = False\<rparr>"
    by (simp add: inputChange_def function_names_distinct try_output_def enc)
  moreover have "inputChange P (js ''decode-base64'') (b64_encode (map unat s))
          \<lparr>outputValue = b64_encode (map unat s), inputError = False\<rparr>
          = Inr \<lparr>outputValue = s, inputError = False\<rparr>"
    by (simp add: inputChange_def function_names_distinct try_output_def dec)
  ultimately show ?thesis by blast
qed

text \<open>C7 at a concrete input: \<^verbatim>\<open>Hi\<close> encodes to \<^verbatim>\<open>SGk=\<close>, which decodes to
  \<^verbatim>\<open>Hi\<close>.\<close>

theorem base64_round_trip_witness:
  "inputChange sample_platform (js ''encode-base64'') (js ''Hi'')
       \<lparr>outputValue = [], inputError = True\<rparr>
     = Inr \<lparr>outputValue = js ''SGk='', inputError = False\<rparr>
   \<and> inputChange sample_platform (js ''decode-base64'') (js ''SGk='')
       \<lparr>outputValue = js ''SGk='', inputError = False\<rparr>
     = Inr \<lparr>outputValue = js ''Hi'', inputError = False\<rparr>"
proof -
  have h: "\<forall>c \<in> set (js ''Hi''). c \<le> 0xFF" by (simp add: js_def)
  from base64_round_trip [OF h, of sample_platform "\<lparr>outputValue = [], inputError = True\<rparr>"]
  obtain encoded where
    e1: "inputChange sample_platform (js ''encode-base64'') (js ''Hi'')
           \<lparr>outputValue = [], inputError = True\<rparr>
         = Inr \<lparr>outputValue = encoded, inputError = False\<rparr>"
    and e2: "inputChange sample_platform (js ''decode-base64'') encoded
           \<lparr>outputValue = encoded, inputError = False\<rparr>
         = Inr \<lparr>outputValue = js ''Hi'', inputError = False\<rparr>"
    by blast
  have "btoa (js ''Hi'') = Inr (js ''SGk='')"
    by (simp add: btoa_def js_def b64_char_def)
  then have "inputChange sample_platform (js ''encode-base64'') (js ''Hi'')
           \<lparr>outputValue = [], inputError = True\<rparr>
         = Inr \<lparr>outputValue = js ''SGk='', inputError = False\<rparr>"
    by (simp add: inputChange_cases try_output_def)
  with e1 have "encoded = js ''SGk=''" by simp
  with e1 e2 show ?thesis by simp
qed

text \<open>
  C8: for every string, lines-to-json-array succeeds, and json-array-to-lines applied to
  its output succeeds and gives the string back.
\<close>

theorem lines_json_round_trip:
  "\<exists>array.
     inputChange P (js ''lines-to-json-array'') s this
       = Inr \<lparr>outputValue = array, inputError = False\<rparr>
     \<and> inputChange P (js ''json-array-to-lines'') array \<lparr>outputValue = array, inputError = False\<rparr>
       = Inr \<lparr>outputValue = s, inputError = False\<rparr>"
proof -
  let ?array = "array_text (map (\<lambda>l. Some (QuoteJSONString l)) (split_str LF s))"
  have "inputChange P (js ''lines-to-json-array'') s this
          = Inr \<lparr>outputValue = ?array, inputError = False\<rparr>"
    by (simp add: inputChange_def function_names_json try_output_def lines_to_json_array_eq)
  moreover have "inputChange P (js ''json-array-to-lines'') ?array
          \<lparr>outputValue = ?array, inputError = False\<rparr>
          = Inr \<lparr>outputValue = s, inputError = False\<rparr>"
    by (simp add: inputChange_def function_names_json try_output_def json_array_to_lines_eq)
  ultimately show ?thesis by blast
qed

text \<open>C8 at a concrete input: the lines \<^verbatim>\<open>a\<close> and \<^verbatim>\<open>b\<close> become the array
  text \<^verbatim>\<open>["a","b"]\<close>, which becomes the two lines again.\<close>

theorem lines_json_round_trip_witness:
  "inputChange sample_platform (js ''lines-to-json-array'') two_lines
       \<lparr>outputValue = [], inputError = True\<rparr>
     = Inr \<lparr>outputValue = js ''[\"a\",\"b\"]'', inputError = False\<rparr>
   \<and> inputChange sample_platform (js ''json-array-to-lines'') (js ''[\"a\",\"b\"]'')
       \<lparr>outputValue = js ''[\"a\",\"b\"]'', inputError = False\<rparr>
     = Inr \<lparr>outputValue = two_lines, inputError = False\<rparr>"
proof -
  from lines_json_round_trip [of sample_platform two_lines "\<lparr>outputValue = [], inputError = True\<rparr>"]
  obtain array where
    e1: "inputChange sample_platform (js ''lines-to-json-array'') two_lines
           \<lparr>outputValue = [], inputError = True\<rparr>
         = Inr \<lparr>outputValue = array, inputError = False\<rparr>"
    and e2: "inputChange sample_platform (js ''json-array-to-lines'') array
           \<lparr>outputValue = array, inputError = False\<rparr>
         = Inr \<lparr>outputValue = two_lines, inputError = False\<rparr>"
    by blast
  have "lines_to_json_array two_lines = Inr (js ''[\"a\",\"b\"]'')"
    by (simp add: lines_to_json_array_eq two_lines_def array_text_def QuoteJSONString_def js_def
        LF_def is_high_surrogate_def is_low_surrogate_def)
  then have "inputChange sample_platform (js ''lines-to-json-array'') two_lines
           \<lparr>outputValue = [], inputError = True\<rparr>
         = Inr \<lparr>outputValue = js ''[\"a\",\"b\"]'', inputError = False\<rparr>"
    by (simp add: inputChange_cases try_output_def)
  with e1 have "array = js ''[\"a\",\"b\"]''" by simp
  with e1 e2 show ?thesis by simp
qed

section \<open>Claims about the error reporter\<close>

text \<open>
  C1, evaluated at a failing input: an \<^verbatim>\<open>Error\<close> whose cause is an object that
  refers to itself.  The guarded serialisation of the failure value succeeds (the cause is
  not enumerable), the details object takes the cause, and the unguarded serialisation of
  the report meets the cycle: a \<^verbatim>\<open>TypeError\<close> leaves either listener.
\<close>

theorem observers_throw_on_cyclic_cause:
  "on_error cyclic_cause_heap (event_of (VRef 0)) = Inl TypeError
     \<and> on_unhandledrejection cyclic_cause_heap \<lparr>reason = VRef 0\<rparr> = Inl TypeError"
  by code_simp

text \<open>
  C4, evaluated at a failing input: a \<^verbatim>\<open>DOMException\<close>.  It is an instance of
  \<^verbatim>\<open>Error\<close> too, the listener tests for \<^verbatim>\<open>Error\<close> first, and the details object
  (the third object of the store, referred to by the field \<^verbatim>\<open>error\<close> of the report)
  has the keys cause, stack and name.
\<close>

theorem dom_exception_details_shape:
  "(case error_body dom_exception_heap (event_of (VRef 0)) of
      (h, report) \<Rightarrow>
        get_prop h report ''error'' = VRef 2
        \<and> map fst (props (h ! 2)) = [''cause'', ''stack'', ''name''])"
  by code_simp

text \<open>
  C9, evaluated at a failing input: the failure value is an instance of \<^verbatim>\<open>Error\<close> with
  a name and a stack, its cause is an object that refers to itself, and neither listener
  issues a request: no report is transmitted, so none holds the name and the stack.
\<close>

theorem error_instance_report_not_transmitted:
  "instanceof cyclic_cause_heap (VRef 0) ''Error''
   \<and> get_prop cyclic_cause_heap (VRef 0) ''name'' = VString (js ''Error'')
   \<and> get_prop cyclic_cause_heap (VRef 0) ''stack'' = VString (js ''Error: boom'')
   \<and> (\<forall>request. on_error cyclic_cause_heap (event_of (VRef 0)) \<noteq> Inr request)
   \<and> (\<forall>request. on_unhandledrejection cyclic_cause_heap \<lparr>reason = VRef 0\<rparr> \<noteq> Inr request)"
proof -
  have "on_error cyclic_cause_heap (event_of (VRef 0)) = Inl TypeError"
    and "on_unhandledrejection cyclic_cause_heap \<lparr>reason = VRef 0\<rparr> = Inl TypeError"
    by code_simp+
  moreover have "instanceof cyclic_cause_heap (VRef 0) ''Error''"
    and "get_prop cyclic_cause_heap (VRef 0) ''name'' = VString (js ''Error'')"
    and "get_prop cyclic_cause_heap (VRef 0) ''stack'' = VString (js ''Error: boom'')"
    by (simp_all add: instanceof_def get_prop_def cyclic_cause_heap_def new_Error_def)
  ultimately show ?thesis by simp
qed

end
